theory Spec2Isabelle
  imports Complex_Main "HOL-Library.Word"
begin

section \<open>Floating-point numbers\<close>

text \<open>
  The coordinates in the messages are IEEE 754 numbers: \<^verbatim>\<open>float64\<close> fields are C++
  \<^verbatim>\<open>double\<close> (binary64), \<^verbatim>\<open>float32\<close> fields are C++ \<^verbatim>\<open>float\<close> (binary32). A number is a
  finite real, an infinity or NaN. The sign of a zero is not kept: of the operations used
  here only a division by zero could tell the two zeros apart, and the model gives that
  division as a fault.
\<close>

datatype fp = Finite real | PInf | MInf | NaN

text \<open>
  What the containment test could do wrong: divide by zero, or read its vector out of
  range. Both are results of the model, so that their absence is a theorem.
\<close>

datatype fault = DivisionByZero | IndexOutOfRange

text \<open>
  Rounding to nearest, ties to even, into the format with \<open>p\<close> significant bits and
  exponents from \<open>emin\<close> to \<open>emax\<close>: \<open>ilog2 x\<close> is the exponent of a positive \<open>x\<close>, the
  spacing \<open>q\<close> of the format's numbers around \<open>x\<close> is that of the subnormal numbers below
  \<open>2 ^ emin\<close>, and a result of magnitude \<open>2 ^ (emax + 1)\<close> or more is an infinity.
\<close>

definition pow2 :: "int \<Rightarrow> real" where
  "pow2 k = (if 0 \<le> k then 2 ^ nat k else 1 / 2 ^ nat (- k))"

function ilog2 :: "real \<Rightarrow> int" where
  "ilog2 x =
     (if 2 \<le> x then ilog2 (x / 2) + 1
      else if 0 < x \<and> x < 1 then ilog2 (2 * x) - 1
      else 0)"
  by pat_completeness auto
termination
proof (relation "measure (\<lambda>x. nat \<bar>\<lfloor>log 2 x\<rfloor>\<bar>)", goal_cases)
  case 1
  show ?case by simp
next
  case (2 x)
  then have "log 2 (x / 2) = log 2 x - 1" "1 \<le> log 2 x"
    by (simp_all add: log_divide le_log_iff)
  then have "\<lfloor>log 2 (x / 2)\<rfloor> = \<lfloor>log 2 x\<rfloor> - 1" and "1 \<le> \<lfloor>log 2 x\<rfloor>"
    by (simp_all add: le_floor_iff)
  then have "\<bar>\<lfloor>log 2 (x / 2)\<rfloor>\<bar> < \<bar>\<lfloor>log 2 x\<rfloor>\<bar>"
    by linarith
  then show ?case by simp
next
  case (3 x)
  then have "log 2 (2 * x) = log 2 x + 1" "log 2 x < 0"
    by (simp_all add: log_mult)
  then have "\<lfloor>log 2 (2 * x)\<rfloor> = \<lfloor>log 2 x\<rfloor> + 1" and "\<lfloor>log 2 x\<rfloor> < 0"
    by (simp_all add: floor_less_iff)
  then have "\<bar>\<lfloor>log 2 (2 * x)\<rfloor>\<bar> < \<bar>\<lfloor>log 2 x\<rfloor>\<bar>"
    by linarith
  then show ?case by simp
qed

declare ilog2.simps [simp del]

definition round_half_even :: "real \<Rightarrow> int" where
  "round_half_even r =
     (let f = \<lfloor>r\<rfloor> in
      if r - of_int f < 1 / 2 then f
      else if 1 / 2 < r - of_int f then f + 1
      else if even f then f else f + 1)"

definition fp_round :: "int \<Rightarrow> int \<Rightarrow> int \<Rightarrow> real \<Rightarrow> fp" where
  "fp_round p emin emax x =
     (if x = 0 then Finite 0
      else
        let e = max (ilog2 \<bar>x\<bar>) emin;
            q = pow2 (e - p + 1);
            y = of_int (round_half_even (x / q)) * q
        in if pow2 (emax + 1) \<le> \<bar>y\<bar> then (if 0 < x then PInf else MInf) else Finite y)"

definition round32 :: "real \<Rightarrow> fp" where
  "round32 = fp_round 24 (- 126) 127"

definition round64 :: "real \<Rightarrow> fp" where
  "round64 = fp_round 53 (- 1022) 1023"

text \<open>
  The comparisons and the four operations. A comparison with NaN is false. An operation
  on finite numbers is the exact result rounded by \<open>rnd\<close>, the rounding of the C++ type
  in which the operation is evaluated; the other equations are those of IEEE 754.
\<close>

fun fp_lt :: "fp \<Rightarrow> fp \<Rightarrow> bool" where
  "fp_lt (Finite x) (Finite y) = (x < y)"
| "fp_lt NaN b = False"
| "fp_lt a NaN = False"
| "fp_lt a MInf = False"
| "fp_lt PInf b = False"
| "fp_lt MInf b = True"
| "fp_lt a PInf = True"

definition fp_gt :: "fp \<Rightarrow> fp \<Rightarrow> bool" where
  "fp_gt a b = fp_lt b a"

fun fp_add :: "(real \<Rightarrow> fp) \<Rightarrow> fp \<Rightarrow> fp \<Rightarrow> fp" where
  "fp_add rnd (Finite x) (Finite y) = rnd (x + y)"
| "fp_add rnd NaN b = NaN"
| "fp_add rnd a NaN = NaN"
| "fp_add rnd PInf MInf = NaN"
| "fp_add rnd MInf PInf = NaN"
| "fp_add rnd PInf b = PInf"
| "fp_add rnd MInf b = MInf"
| "fp_add rnd a PInf = PInf"
| "fp_add rnd a MInf = MInf"

fun fp_sub :: "(real \<Rightarrow> fp) \<Rightarrow> fp \<Rightarrow> fp \<Rightarrow> fp" where
  "fp_sub rnd (Finite x) (Finite y) = rnd (x - y)"
| "fp_sub rnd NaN b = NaN"
| "fp_sub rnd a NaN = NaN"
| "fp_sub rnd PInf PInf = NaN"
| "fp_sub rnd MInf MInf = NaN"
| "fp_sub rnd PInf b = PInf"
| "fp_sub rnd MInf b = MInf"
| "fp_sub rnd a PInf = MInf"
| "fp_sub rnd a MInf = PInf"

fun fp_mul :: "(real \<Rightarrow> fp) \<Rightarrow> fp \<Rightarrow> fp \<Rightarrow> fp" where
  "fp_mul rnd (Finite x) (Finite y) = rnd (x * y)"
| "fp_mul rnd NaN b = NaN"
| "fp_mul rnd a NaN = NaN"
| "fp_mul rnd PInf (Finite y) = (if y = 0 then NaN else if 0 < y then PInf else MInf)"
| "fp_mul rnd MInf (Finite y) = (if y = 0 then NaN else if 0 < y then MInf else PInf)"
| "fp_mul rnd (Finite x) PInf = (if x = 0 then NaN else if 0 < x then PInf else MInf)"
| "fp_mul rnd (Finite x) MInf = (if x = 0 then NaN else if 0 < x then MInf else PInf)"
| "fp_mul rnd PInf PInf = PInf"
| "fp_mul rnd PInf MInf = MInf"
| "fp_mul rnd MInf PInf = MInf"
| "fp_mul rnd MInf MInf = PInf"

text \<open>A division by a zero, whatever the dividend, is the fault \<open>DivisionByZero\<close>.\<close>

fun fp_div :: "(real \<Rightarrow> fp) \<Rightarrow> fp \<Rightarrow> fp \<Rightarrow> fault + fp" where
  "fp_div rnd a (Finite y) =
     (if y = 0 then Inl DivisionByZero
      else case a of
        Finite x \<Rightarrow> Inr (rnd (x / y))
      | PInf \<Rightarrow> Inr (if 0 < y then PInf else MInf)
      | MInf \<Rightarrow> Inr (if 0 < y then MInf else PInf)
      | NaN \<Rightarrow> Inr NaN)"
| "fp_div rnd a NaN = Inr NaN"
| "fp_div rnd (Finite x) b = Inr (Finite 0)"
| "fp_div rnd a b = Inr NaN"

text \<open>
  A \<^verbatim>\<open>float\<close> is a number that binary32 holds exactly; \<open>double_of\<close> is its conversion to
  \<^verbatim>\<open>double\<close>, which changes nothing. \<open>float32_of x\<close> is the \<^verbatim>\<open>float\<close> of value \<open>x\<close> when
  there is one.
\<close>

definition is_float32 :: "fp \<Rightarrow> bool" where
  "is_float32 v =
     (case v of Finite x \<Rightarrow> round32 x = Finite x | PInf \<Rightarrow> True | MInf \<Rightarrow> True | NaN \<Rightarrow> True)"

typedef float32 = "{v. is_float32 v}"
  morphisms double_of Abs_float32
  by (rule exI [of _ NaN]) (simp add: is_float32_def)

setup_lifting type_definition_float32

lift_definition float32_of :: "real \<Rightarrow> float32" is
  "\<lambda>x. if round32 x = Finite x then Finite x else NaN"
  by (simp add: is_float32_def)

section \<open>Messages\<close>

text \<open>
  The ROS messages that \<^verbatim>\<open>explore_server.cpp\<close> reads and writes:
  \<^verbatim>\<open>geometry_msgs/Point\<close> has \<^verbatim>\<open>float64\<close> fields, \<^verbatim>\<open>geometry_msgs/Point32\<close>, of which a
  polygon is made, has \<^verbatim>\<open>float32\<close> fields.
\<close>

record header =
  hdr_seq :: nat
  hdr_stamp :: nat
  frame_id :: string

record point =
  pt_x :: fp
  pt_y :: fp
  pt_z :: fp

record point32 =
  x32 :: float32
  y32 :: float32
  z32 :: float32

record quaternion =
  q_x :: fp
  q_y :: fp
  q_z :: fp
  q_w :: fp

record pose =
  position :: point
  orientation :: quaternion

record pose_stamped =
  ps_header :: header
  ps_pose :: pose

record point_stamped =
  pst_header :: header
  pst_point :: point

record polygon =
  points :: "point32 list"

record polygon_stamped =
  pg_header :: header
  pg_polygon :: polygon

text \<open>\<^verbatim>\<open>robot_explore::ExploreTaskGoal\<close>: the boundary and the initial exploration point.\<close>

record explore_task_goal =
  explore_boundary :: polygon_stamped
  explore_center :: point_stamped

section \<open>The containment test\<close>

text \<open>\<^verbatim>\<open>pointInPolygon\<close> (lines 200--209).\<close>

definition at_index :: "point32 list \<Rightarrow> int \<Rightarrow> fault + point32" where
  "at_index ps k =
     (if 0 \<le> k \<and> k < int (length ps) then Inr (ps ! nat k) else Inl IndexOutOfRange)"

text \<open>
  The condition of the \<^verbatim>\<open>if\<close> in lines 203--204 for \<open>a = polygon.points[i]\<close> and
  \<open>b = polygon.points[j]\<close>, with the types C++ gives the operations: the two differences
  of vertex coordinates are \<^verbatim>\<open>float\<close> operations, every operation with the point's
  \<^verbatim>\<open>double\<close> coordinates or with a \<^verbatim>\<open>double\<close> result is a \<^verbatim>\<open>double\<close> operation after the
  conversion of its \<^verbatim>\<open>float\<close> operand. The right operand of \<^verbatim>\<open>&&\<close>, and with it the
  division, is evaluated only when the left operand is true.
\<close>

definition edge_test :: "point \<Rightarrow> point32 \<Rightarrow> point32 \<Rightarrow> fault + bool" where
  "edge_test pt a b =
     (if fp_gt (double_of (y32 a)) (pt_y pt) \<noteq> fp_gt (double_of (y32 b)) (pt_y pt) then
        (case fp_div round64
                (fp_mul round64
                   (fp_sub round32 (double_of (x32 b)) (double_of (x32 a)))
                   (fp_sub round64 (pt_y pt) (double_of (y32 a))))
                (fp_sub round32 (double_of (y32 b)) (double_of (y32 a))) of
           Inl f \<Rightarrow> Inl f
         | Inr q \<Rightarrow> Inr (fp_lt (pt_x pt) (fp_add round64 q (double_of (x32 a)))))
      else Inr False)"

text \<open>
  The \<^verbatim>\<open>for\<close> loop of line 202 with its variables \<open>i\<close>, \<open>j\<close> and \<open>cross\<close>;
  \<^verbatim>\<open>j = i++\<close> gives \<open>j\<close> the old \<open>i\<close>.
\<close>

function pip_loop :: "point \<Rightarrow> point32 list \<Rightarrow> int \<Rightarrow> int \<Rightarrow> int \<Rightarrow> fault + int" where
  "pip_loop pt ps i j cross =
     (if i < int (length ps) then
        (case at_index ps i of
           Inl f \<Rightarrow> Inl f
         | Inr a \<Rightarrow>
            (case at_index ps j of
               Inl f \<Rightarrow> Inl f
             | Inr b \<Rightarrow>
                (case edge_test pt a b of
                   Inl f \<Rightarrow> Inl f
                 | Inr c \<Rightarrow> pip_loop pt ps (i + 1) i (if c then cross + 1 else cross))))
      else Inr cross)"
  by pat_completeness auto
termination
  by (relation "measure (\<lambda>(pt, ps, i, j, cross). nat (int (length ps) - i))") auto

declare pip_loop.simps [simp del]

definition pointInPolygon :: "point \<Rightarrow> polygon \<Rightarrow> fault + bool" where
  "pointInPolygon pt poly =
     (case pip_loop pt (points poly) 0 (int (length (points poly)) - 1) 0 of
        Inl f \<Rightarrow> Inl f
      | Inr cross \<Rightarrow> Inr (cross mod 2 \<noteq> 0))"

subsection \<open>The containment test as the specification words it\<close>

text \<open>
  The edge of index \<open>i\<close> joins vertex \<open>i\<close> to the previous vertex, the last one for
  \<open>i = 0\<close>. It is a crossing when exactly one of its endpoints lies above the point's
  height and the point is left of the place where the edge meets that height. In
  \<open>is_crossing\<close> that place is the number the floating-point operations give for the
  interpolation.
\<close>

definition prev_index :: "nat \<Rightarrow> nat \<Rightarrow> nat" where
  "prev_index n i = (if i = 0 then n - 1 else i - 1)"

definition crossing_x :: "point32 \<Rightarrow> point32 \<Rightarrow> fp \<Rightarrow> fault + fp" where
  "crossing_x a b h =
     (case fp_div round64
             (fp_mul round64
                (fp_sub round32 (double_of (x32 b)) (double_of (x32 a)))
                (fp_sub round64 h (double_of (y32 a))))
             (fp_sub round32 (double_of (y32 b)) (double_of (y32 a))) of
        Inl f \<Rightarrow> Inl f
      | Inr q \<Rightarrow> Inr (fp_add round64 q (double_of (x32 a))))"

definition is_crossing :: "point \<Rightarrow> point32 list \<Rightarrow> nat \<Rightarrow> bool" where
  "is_crossing pt ps i =
     (let a = ps ! i; b = ps ! prev_index (length ps) i;
          above_a = fp_gt (double_of (y32 a)) (pt_y pt);
          above_b = fp_gt (double_of (y32 b)) (pt_y pt)
      in (above_a \<and> \<not> above_b \<or> above_b \<and> \<not> above_a) \<and>
         (case crossing_x a b (pt_y pt) of
            Inl f \<Rightarrow> False
          | Inr c \<Rightarrow> fp_lt (pt_x pt) c))"

definition crossing_count :: "point \<Rightarrow> point32 list \<Rightarrow> nat" where
  "crossing_count pt ps = length (filter (is_crossing pt ps) [0..<length ps])"

text \<open>
  In \<open>is_exact_crossing\<close> the place is that of the interpolation in the real numbers, as
  the specification has it; it is meant for finite coordinates, of which \<open>fp_real\<close> is
  the value.
\<close>

fun fp_real :: "fp \<Rightarrow> real" where
  "fp_real (Finite x) = x"
| "fp_real PInf = 0"
| "fp_real MInf = 0"
| "fp_real NaN = 0"

definition exact_crossing_x :: "point32 \<Rightarrow> point32 \<Rightarrow> real \<Rightarrow> real" where
  "exact_crossing_x a b h =
     fp_real (double_of (x32 a)) +
     (h - fp_real (double_of (y32 a))) /
       (fp_real (double_of (y32 b)) - fp_real (double_of (y32 a))) *
     (fp_real (double_of (x32 b)) - fp_real (double_of (x32 a)))"

definition is_exact_crossing :: "point \<Rightarrow> point32 list \<Rightarrow> nat \<Rightarrow> bool" where
  "is_exact_crossing pt ps i =
     (let a = ps ! i; b = ps ! prev_index (length ps) i;
          ya = fp_real (double_of (y32 a)); yb = fp_real (double_of (y32 b));
          h = fp_real (pt_y pt)
      in (h < ya \<and> yb \<le> h \<or> h < yb \<and> ya \<le> h) \<and>
         fp_real (pt_x pt) < exact_crossing_x a b h)"

definition exact_crossing_count :: "point \<Rightarrow> point32 list \<Rightarrow> nat" where
  "exact_crossing_count pt ps = length (filter (is_exact_crossing pt ps) [0..<length ps])"

section \<open>The mission controller\<close>

subsection \<open>Collaborators and mission state\<close>

text \<open>
  Everything \<^verbatim>\<open>executeCB\<close> (lines 45--195) asks of the outside world is a field of
  \<open>env\<close>. A field of type \<open>nat \<Rightarrow> _\<close> is a script: its value at \<open>k\<close> is the answer to
  the \<open>k\<close>-th use of that collaborator in the mission, counted from 0, so that two uses never
  have to agree. The three availability waits are used once each and are assumed to
  return. \<^verbatim>\<open>transformPose\<close> is a function of the target frame and the stamped pose, and is
  assumed not to throw.
\<close>

record env =
  ros_ok :: "nat \<Rightarrow> bool"
  isPreemptRequested :: "nat \<Rightarrow> bool"
  updateBoundaryPolygon_exists :: bool
  updateBoundaryPolygon_call :: "nat \<Rightarrow> polygon_stamped \<Rightarrow> bool"
  moveClient_waitForServer :: bool
  sendGoalAndWait :: "nat \<Rightarrow> pose_stamped \<Rightarrow> bool"
  getNextFrontier_exists :: bool
  getRobotPose :: "nat \<Rightarrow> pose_stamped"
  transformPose :: "string \<Rightarrow> pose_stamped \<Rightarrow> pose_stamped"
  getNextFrontier_call :: "nat \<Rightarrow> pose_stamped \<Rightarrow> pose_stamped option"

datatype outcome = Succeeded | Aborted

text \<open>The collaborator calls, in the order the controller issues them, with their results.\<close>

datatype event =
    BoundaryCall bool
  | CenterNav pose_stamped bool
  | FrontierCall "pose_stamped option"
  | GoalNav pose_stamped bool

text \<open>A navigation request of the explore loop (line 176) that ended in \<^verbatim>\<open>SUCCEEDED\<close>.\<close>

fun goal_reached :: "event \<Rightarrow> bool" where
  "goal_reached (GoalNav target reached) = reached"
| "goal_reached (BoundaryCall r) = False"
| "goal_reached (CenterNav target r) = False"
| "goal_reached (FrontierCall r) = False"

text \<open>
  The state of one mission: how often each collaborator has been used, the number of
  half-second delays slept, the local variable \<^verbatim>\<open>success\<close>, the calls issued so far, and
  the outcomes reported to the action server by \<^verbatim>\<open>setSucceeded\<close> and \<^verbatim>\<open>setAborted\<close>.
\<close>

record mission =
  n_ok :: nat
  n_preempt :: nat
  n_boundary :: nat
  n_nav :: nat
  n_pose :: nat
  n_frontier :: nat
  n_sleep :: nat
  success :: bool
  calls :: "event list"
  reports :: "outcome list"
  fault_raised :: "fault option"

definition start :: mission where
  "start = \<lparr>n_ok = 0, n_preempt = 0, n_boundary = 0, n_nav = 0, n_pose = 0, n_frontier = 0,
     n_sleep = 0, success = False, calls = [], reports = [], fault_raised = None\<rparr>"

definition ok_check :: "env \<Rightarrow> mission \<Rightarrow> bool \<times> mission" where
  "ok_check e s = (ros_ok e (n_ok s), s\<lparr>n_ok := Suc (n_ok s)\<rparr>)"

definition preempt_check :: "env \<Rightarrow> mission \<Rightarrow> bool \<times> mission" where
  "preempt_check e s = (isPreemptRequested e (n_preempt s), s\<lparr>n_preempt := Suc (n_preempt s)\<rparr>)"

definition call_boundary :: "env \<Rightarrow> explore_task_goal \<Rightarrow> mission \<Rightarrow> bool \<times> mission" where
  "call_boundary e goal s =
     (let r = updateBoundaryPolygon_call e (n_boundary s) (explore_boundary goal) in
        (r, s\<lparr>n_boundary := Suc (n_boundary s), calls := calls s @ [BoundaryCall r]\<rparr>))"

definition move_to ::
  "env \<Rightarrow> (pose_stamped \<Rightarrow> bool \<Rightarrow> event) \<Rightarrow> pose_stamped \<Rightarrow> mission \<Rightarrow> bool \<times> mission" where
  "move_to e kind target s =
     (let r = sendGoalAndWait e (n_nav s) target in
        (r, s\<lparr>n_nav := Suc (n_nav s), calls := calls s @ [kind target r]\<rparr>))"

definition read_robot_pose :: "env \<Rightarrow> mission \<Rightarrow> pose_stamped \<times> mission" where
  "read_robot_pose e s = (getRobotPose e (n_pose s), s\<lparr>n_pose := Suc (n_pose s)\<rparr>)"

definition call_frontier :: "env \<Rightarrow> pose_stamped \<Rightarrow> mission \<Rightarrow> pose_stamped option \<times> mission" where
  "call_frontier e start_pose s =
     (let r = getNextFrontier_call e (n_frontier s) start_pose in
        (r, s\<lparr>n_frontier := Suc (n_frontier s), calls := calls s @ [FrontierCall r]\<rparr>))"

definition sleep :: "mission \<Rightarrow> mission" where
  "sleep s = s\<lparr>n_sleep := Suc (n_sleep s)\<rparr>"

definition setAborted :: "mission \<Rightarrow> mission" where
  "setAborted s = s\<lparr>reports := reports s @ [Aborted]\<rparr>"

definition setSucceeded :: "mission \<Rightarrow> mission" where
  "setSucceeded s = s\<lparr>reports := reports s @ [Succeeded]\<rparr>"

subsection \<open>The retry loops\<close>

text \<open>
  How control leaves a loop: \<open>Return\<close> when \<^verbatim>\<open>executeCB\<close> returned from inside it,
  \<open>Break\<close> by \<^verbatim>\<open>break\<close>, \<open>Exit\<close> when the loop condition was false. The counter
  \<^verbatim>\<open>int retry\<close> is a 32-bit word; every loop is entered with \<open>retry = 5\<close>.
\<close>

datatype flow = Return | Break | Exit

text \<open>Lines 60--76: set the region boundary on the costmap.\<close>

function boundary_loop :: "env \<Rightarrow> explore_task_goal \<Rightarrow> 32 word \<Rightarrow> mission \<Rightarrow> flow \<times> mission" where
  "boundary_loop e goal retry s =
     (case ok_check e s of (running, s1) \<Rightarrow>
      if \<not> running then (Exit, s1) else
      case preempt_check e s1 of (preempted, s2) \<Rightarrow>
      if preempted then (Exit, s2) else
      case call_boundary e goal s2 of (called, s3) \<Rightarrow>
      if called then (Break, s3) else
      let retry' = retry - 1 in
      if retry' = 0 then (Return, setAborted s3) else
      case ok_check e s3 of (running', s4) \<Rightarrow>
      if \<not> running' then (Return, setAborted s4) else
      boundary_loop e goal retry' (sleep s4))"
  by pat_completeness auto
termination
proof -
  have less: "unat (r - 2) < unat (r - 1)" if "r \<noteq> 1" for r :: "32 word"
    using that unat_minus_one [of "r - 1"] by (simp add: unat_gt_0)
  show ?thesis
    by (relation "measure (\<lambda>(e, goal, retry, s). unat (retry - 1))")
       (auto simp: less)
qed

declare boundary_loop.simps [simp del]

text \<open>Lines 92--111: move to the room center.\<close>

function center_loop :: "env \<Rightarrow> pose_stamped \<Rightarrow> 32 word \<Rightarrow> mission \<Rightarrow> flow \<times> mission" where
  "center_loop e center_pose retry s =
     (case ok_check e s of (running, s1) \<Rightarrow>
      if \<not> running then (Exit, s1) else
      case move_to e CenterNav center_pose s1 of (reached, s2) \<Rightarrow>
      if reached then (Break, s2) else
      let retry' = retry - 1 in
      if retry' = 0 then (Return, setAborted s2) else
      case ok_check e s2 of (running', s3) \<Rightarrow>
      if \<not> running' then (Return, setAborted s3) else
      center_loop e center_pose retry' (sleep s3))"
  by pat_completeness auto
termination
proof -
  have less: "unat (r - 2) < unat (r - 1)" if "r \<noteq> 1" for r :: "32 word"
    using that unat_minus_one [of "r - 1"] by (simp add: unat_gt_0)
  show ?thesis
    by (relation "measure (\<lambda>(e, center_pose, retry, s). unat (retry - 1))")
       (auto simp: less)
qed

declare center_loop.simps [simp del]

text \<open>
  Lines 140--143: the pose tested against the boundary, transformed into the boundary's
  frame when the frames differ.
\<close>

definition eval_pose :: "env \<Rightarrow> explore_task_goal \<Rightarrow> pose_stamped \<Rightarrow> pose_stamped" where
  "eval_pose e goal start_pose =
     (if frame_id (ps_header start_pose) \<noteq> frame_id (pg_header (explore_boundary goal))
      then transformPose e (frame_id (pg_header (explore_boundary goal))) start_pose
      else start_pose)"

text \<open>
  Lines 137--168: find the next goal. \<open>goal_pose\<close> is the variable declared in line 136;
  the loop has no delay between attempts. A fault of the containment test ends the
  mission with \<open>fault_raised\<close> set.
\<close>

function frontier_loop ::
  "env \<Rightarrow> explore_task_goal \<Rightarrow> pose_stamped \<Rightarrow> pose_stamped \<Rightarrow> pose_stamped \<Rightarrow> 32 word \<Rightarrow>
   mission \<Rightarrow> flow \<times> pose_stamped \<times> mission" where
  "frontier_loop e goal center_pose start_pose goal_pose retry s =
     (case ok_check e s of (running, s1) \<Rightarrow>
      if \<not> running then (Exit, goal_pose, s1) else
      (case pointInPolygon (position (ps_pose (eval_pose e goal start_pose)))
              (pg_polygon (explore_boundary goal)) of
         Inl f \<Rightarrow> (Return, goal_pose, s1\<lparr>fault_raised := Some f\<rparr>)
       | Inr inside \<Rightarrow>
           if \<not> inside then (Break, center_pose, s1) else
           (case call_frontier e start_pose s1 of (found, s2) \<Rightarrow>
            (case found of
               Some next_frontier \<Rightarrow> (Break, next_frontier, s2)
             | None \<Rightarrow>
                 let retry' = retry - 1 in
                 if retry' = 0 \<and> success s2 then (Return, goal_pose, setSucceeded s2)
                 else if retry' = 0 then (Return, goal_pose, setAborted s2)
                 else
                   (case ok_check e s2 of (running', s3) \<Rightarrow>
                    if \<not> running' then (Return, goal_pose, setAborted s3)
                    else frontier_loop e goal center_pose start_pose goal_pose retry' s3)))))"
  by pat_completeness auto
termination
proof -
  have less: "unat (r - 2) < unat (r - 1)" if "r \<noteq> 1" for r :: "32 word"
    using that unat_minus_one [of "r - 1"] by (simp add: unat_gt_0)
  show ?thesis
    by (relation "measure (\<lambda>(e, goal, center_pose, start_pose, goal_pose, retry, s). unat (retry - 1))")
       (auto simp: less)
qed

declare frontier_loop.simps [simp del]

text \<open>Lines 172--192: move to the goal found.\<close>

function goal_loop :: "env \<Rightarrow> pose_stamped \<Rightarrow> 32 word \<Rightarrow> mission \<Rightarrow> flow \<times> mission" where
  "goal_loop e goal_pose retry s =
     (case ok_check e s of (running, s1) \<Rightarrow>
      if \<not> running then (Exit, s1) else
      case move_to e GoalNav goal_pose s1 of (reached, s2) \<Rightarrow>
      if reached then (Break, s2\<lparr>success := True\<rparr>) else
      let retry' = retry - 1 in
      if retry' = 0 then (Return, setAborted s2) else
      case ok_check e s2 of (running', s3) \<Rightarrow>
      if \<not> running' then (Return, setAborted s3) else
      goal_loop e goal_pose retry' (sleep s3))"
  by pat_completeness auto
termination
proof -
  have less: "unat (r - 2) < unat (r - 1)" if "r \<noteq> 1" for r :: "32 word"
    using that unat_minus_one [of "r - 1"] by (simp add: unat_gt_0)
  show ?thesis
    by (relation "measure (\<lambda>(e, goal_pose, retry, s). unat (retry - 1))")
       (auto simp: less)
qed

declare goal_loop.simps [simp del]

subsection \<open>The mission\<close>

text \<open>A default-constructed \<^verbatim>\<open>geometry_msgs::PoseStamped\<close> (line 136).\<close>

definition default_pose_stamped :: pose_stamped where
  "default_pose_stamped =
     \<lparr>ps_header = \<lparr>hdr_seq = 0, hdr_stamp = 0, frame_id = []\<rparr>,
      ps_pose = \<lparr>position = \<lparr>pt_x = Finite 0, pt_y = Finite 0, pt_z = Finite 0\<rparr>,
                 orientation =
                   \<lparr>q_x = Finite 0, q_y = Finite 0, q_z = Finite 0, q_w = Finite 0\<rparr>\<rparr>\<rparr>"

text \<open>Lines 88--91; \<^verbatim>\<open>tf::createQuaternionMsgFromYaw(0)\<close> is the identity rotation.\<close>

definition center_pose_of :: "explore_task_goal \<Rightarrow> pose_stamped" where
  "center_pose_of goal =
     \<lparr>ps_header = pst_header (explore_center goal),
      ps_pose = \<lparr>position = pst_point (explore_center goal),
                 orientation =
                   \<lparr>q_x = Finite 0, q_y = Finite 0, q_z = Finite 0, q_w = Finite 1\<rparr>\<rparr>\<rparr>"

text \<open>
  Lines 122--193: the explore loop. It runs as long as frontiers are found and reached,
  so the model takes the number of iterations it may make; \<open>None\<close> says that the loop
  was still running after that many.
\<close>

fun explore_loop ::
  "nat \<Rightarrow> env \<Rightarrow> explore_task_goal \<Rightarrow> pose_stamped \<Rightarrow> mission \<Rightarrow> mission option" where
  "explore_loop 0 e goal center_pose s = None"
| "explore_loop (Suc fuel) e goal center_pose s =
     (case ok_check e s of (running, s1) \<Rightarrow>
      if \<not> running then Some s1 else
      case read_robot_pose e s1 of (start_pose, s2) \<Rightarrow>
      case frontier_loop e goal center_pose start_pose default_pose_stamped 5 s2 of
        (left_frontier, goal_pose, s3) \<Rightarrow>
      if left_frontier = Return then Some s3 else
      case goal_loop e goal_pose 5 s3 of (left_goal, s4) \<Rightarrow>
      if left_goal = Return then Some s4 else
      explore_loop fuel e goal center_pose s4)"

text \<open>
  \<^verbatim>\<open>executeCB\<close>, lines 45--195. The result is the state in which the callback
  returned; its \<open>reports\<close> are what the caller was told.
\<close>

definition executeCB :: "nat \<Rightarrow> env \<Rightarrow> explore_task_goal \<Rightarrow> mission option" where
  "executeCB fuel e goal =
     (if \<not> updateBoundaryPolygon_exists e then Some (setAborted start) else
      case boundary_loop e goal 5 start of (left_boundary, s1) \<Rightarrow>
      if left_boundary = Return then Some s1 else
      if \<not> moveClient_waitForServer e then Some (setAborted s1) else
      case center_loop e (center_pose_of goal) 5 s1 of (left_center, s2) \<Rightarrow>
      if left_center = Return then Some s2 else
      if \<not> getNextFrontier_exists e then Some (setAborted s2) else
      explore_loop fuel e goal (center_pose_of goal) (s2\<lparr>success := False\<rparr>))"

subsection \<open>Scenarios\<close>

text \<open>
  A square room of side 4 in the frame \<open>map\<close> with its center as the initial exploration
  point, and a world in which nothing goes wrong and nothing is left to explore: no
  shutdown, no preemption, every service present, every call but the frontier search
  succeeds, and the robot stands inside the room at \<open>(1, 1)\<close>. The scenarios below change
  the collaborators they name.
\<close>

definition map_header :: header where
  "map_header = \<lparr>hdr_seq = 0, hdr_stamp = 0, frame_id = ''map''\<rparr>"

definition vertex :: "real \<Rightarrow> real \<Rightarrow> point" where
  "vertex a b = \<lparr>pt_x = Finite a, pt_y = Finite b, pt_z = Finite 0\<rparr>"

definition corner :: "real \<Rightarrow> real \<Rightarrow> point32" where
  "corner a b = \<lparr>x32 = float32_of a, y32 = float32_of b, z32 = float32_of 0\<rparr>"

definition pose_at :: "real \<Rightarrow> real \<Rightarrow> pose_stamped" where
  "pose_at a b =
     \<lparr>ps_header = map_header,
      ps_pose = \<lparr>position = vertex a b,
                 orientation =
                   \<lparr>q_x = Finite 0, q_y = Finite 0, q_z = Finite 0, q_w = Finite 1\<rparr>\<rparr>\<rparr>"

definition room :: explore_task_goal where
  "room =
     \<lparr>explore_boundary =
        \<lparr>pg_header = map_header,
         pg_polygon = \<lparr>points = [corner 0 0, corner 4 0, corner 4 4, corner 0 4]\<rparr>\<rparr>,
      explore_center = \<lparr>pst_header = map_header, pst_point = vertex 2 2\<rparr>\<rparr>"

definition calm :: env where
  "calm =
     \<lparr>ros_ok = (\<lambda>k. True),
      isPreemptRequested = (\<lambda>k. False),
      updateBoundaryPolygon_exists = True,
      updateBoundaryPolygon_call = (\<lambda>k boundary. True),
      moveClient_waitForServer = True,
      sendGoalAndWait = (\<lambda>k target. True),
      getNextFrontier_exists = True,
      getRobotPose = (\<lambda>k. pose_at 1 1),
      transformPose = (\<lambda>frame p. p),
      getNextFrontier_call = (\<lambda>k start_pose. None)\<rparr>"

text \<open>The robot is found outside the room, at \<open>(5, 1)\<close>, in the first iteration only.\<close>

definition strayed :: env where
  "strayed = calm\<lparr>getRobotPose := (\<lambda>k. if k = 0 then pose_at 5 1 else pose_at 1 1)\<rparr>"

text \<open>The process is shut down after the robot has reached the center.\<close>

definition shut_down_at_center :: env where
  "shut_down_at_center = calm\<lparr>ros_ok := (\<lambda>k. k < 2)\<rparr>"

text \<open>The caller has preempted the goal before the boundary is set.\<close>

definition preempted_strayed :: env where
  "preempted_strayed = strayed\<lparr>isPreemptRequested := (\<lambda>k. True)\<rparr>"

text \<open>
  A frontier at \<open>(3, 3)\<close> is found, the first move towards it fails, and the process is
  shut down during the delay that follows: the checks of lines 172 and 185 pass, the
  next check of line 172 does not.
\<close>

definition shut_down_in_goal_delay :: env where
  "shut_down_in_goal_delay =
     calm\<lparr>ros_ok := (\<lambda>k. k < 6),
          sendGoalAndWait := (\<lambda>k target. k = 0),
          getNextFrontier_call := (\<lambda>k start_pose. Some (pose_at 3 3))\<rparr>"

text \<open>The frontier search finds \<open>(3, 3)\<close>, on the second attempt.\<close>

definition second_try :: env where
  "second_try =
     calm\<lparr>getNextFrontier_call := (\<lambda>k start_pose. if k = 1 then Some (pose_at 3 3) else None)\<rparr>"

text \<open>
  A frontier at \<open>(3, 3)\<close> is found and reached, and the process is shut down before the
  explore loop starts its second iteration.
\<close>

definition shut_down_exploring :: env where
  "shut_down_exploring =
     calm\<lparr>ros_ok := (\<lambda>k. k < 5), getNextFrontier_call := (\<lambda>k start_pose. Some (pose_at 3 3))\<rparr>"

text \<open>
  The first move to the center fails, and the caller preempts the goal during the delay
  that follows: any check of the preemption flag after the one of line 60 would find it
  set. The robot is found outside the room in the first iteration.
\<close>

definition preempted_in_delay :: env where
  "preempted_in_delay =
     strayed\<lparr>isPreemptRequested := (\<lambda>k. 0 < k), sendGoalAndWait := (\<lambda>k target. 0 < k)\<rparr>"

text \<open>The Boundary Service is there and refuses every call.\<close>

definition boundary_down :: env where
  "boundary_down = calm\<lparr>updateBoundaryPolygon_call := (\<lambda>k boundary. False)\<rparr>"

section \<open>Properties of the floating-point numbers\<close>

lemma pow2_pos [simp]: "0 < pow2 k"
  by (simp add: pow2_def)

lemma pow2_nonneg [simp]: "0 \<le> pow2 k"
  by (simp add: pow2_def)

lemma pow2_powr: "pow2 k = 2 powr of_int k"
  by (simp add: pow2_def powr_real_of_int inverse_eq_divide)

lemma pow2_add: "pow2 (a + b) = pow2 a * pow2 b"
  by (simp add: pow2_powr powr_add)

lemma pow2_mono: "a \<le> b \<Longrightarrow> pow2 a \<le> pow2 b"
  by (simp add: pow2_powr)

lemma pow2_small [simp]: "pow2 0 = 1" "pow2 1 = 2" "pow2 (- 1) = 1 / 2"
  by (simp_all add: pow2_def)

lemma pow2_nat: "0 \<le> k \<Longrightarrow> pow2 k = of_int (2 ^ nat k)"
  by (simp add: pow2_def)

lemma pow2_ilog2: "0 < x \<Longrightarrow> pow2 (ilog2 x) \<le> x"
proof (induction x rule: ilog2.induct)
  case (1 x)
  show ?case
  proof (cases "2 \<le> x")
    case True
    with 1 have "pow2 (ilog2 (x / 2)) \<le> x / 2" by simp
    with True show ?thesis
      by (subst ilog2.simps) (simp add: pow2_add)
  next
    case False
    show ?thesis
    proof (cases "x < 1")
      case True
      with 1 False have "pow2 (ilog2 (2 * x)) \<le> 2 * x" by simp
      moreover have "pow2 (ilog2 (2 * x) - 1) = pow2 (ilog2 (2 * x)) / 2"
        using pow2_add [of "ilog2 (2 * x)" "- 1"] by simp
      ultimately show ?thesis
        using True False 1(3) by (subst ilog2.simps) simp
    next
      case ge: False
      with False 1(3) show ?thesis
        by (subst ilog2.simps) simp
    qed
  qed
qed

lemma round_half_even_nonzero: "1 \<le> \<bar>r\<bar> \<Longrightarrow> round_half_even r \<noteq> 0"
  unfolding round_half_even_def Let_def
  by (auto simp: abs_if split: if_splits) linarith+

lemma fp_round_nonzero:
  assumes "pow2 (emin - p + 1) \<le> \<bar>x\<bar>" and "1 \<le> p"
  shows "fp_round p emin emax x \<noteq> Finite 0"
proof -
  have "0 < pow2 (emin - p + 1)" by simp
  with assms(1) have nz: "x \<noteq> 0" by (auto simp del: pow2_pos)
  define e where "e = max (ilog2 \<bar>x\<bar>) emin"
  define q where "q = pow2 (e - p + 1)"
  have "q \<le> \<bar>x\<bar>"
  proof (cases "emin \<le> ilog2 \<bar>x\<bar>")
    case True
    then have "e = ilog2 \<bar>x\<bar>" by (simp add: e_def)
    moreover have "pow2 (ilog2 \<bar>x\<bar>) \<le> \<bar>x\<bar>" using nz by (simp add: pow2_ilog2)
    moreover have "pow2 (ilog2 \<bar>x\<bar> - p + 1) \<le> pow2 (ilog2 \<bar>x\<bar>)"
      using assms(2) by (intro pow2_mono) simp
    ultimately show ?thesis by (simp add: q_def)
  next
    case False
    then have "e = emin" by (simp add: e_def)
    with assms(1) show ?thesis by (simp add: q_def)
  qed
  moreover have "0 < q" by (simp add: q_def)
  ultimately have "1 \<le> \<bar>x / q\<bar>" by (simp add: le_divide_eq)
  then have "round_half_even (x / q) \<noteq> 0" by (rule round_half_even_nonzero)
  with \<open>0 < q\<close> have "of_int (round_half_even (x / q)) * q \<noteq> 0" by simp
  with nz show ?thesis
    by (simp add: fp_round_def Let_def e_def [symmetric] q_def [symmetric])
qed

text \<open>
  The numbers of binary32 are multiples of \<open>2 ^ (- 149)\<close>, so two different ones are at
  least that far apart and their difference does not round to zero.
\<close>

lemma float32_grid:
  assumes "is_float32 (Finite a)"
  shows "\<exists>k::int. a = of_int k * pow2 (- 149)"
proof (cases "a = 0")
  case True
  then show ?thesis by (intro exI [of _ 0]) simp
next
  case False
  define e where "e = max (ilog2 \<bar>a\<bar>) (- 126)"
  define r where "r = round_half_even (a / pow2 (e - 23))"
  from assms False have "a = of_int r * pow2 (e - 23)"
    by (simp add: is_float32_def round32_def fp_round_def Let_def e_def [symmetric]
        r_def [symmetric] split: if_splits)
  moreover have "pow2 (e - 23) = pow2 (e + 126) * pow2 (- 149)"
    using pow2_add [of "e + 126" "- 149"] by simp
  moreover have "0 \<le> e + 126" by (simp add: e_def)
  ultimately have "a = of_int (r * 2 ^ nat (e + 126)) * pow2 (- 149)"
    by (simp add: pow2_nat)
  then show ?thesis ..
qed

lemma float32_apart:
  assumes "is_float32 (Finite a)" and "is_float32 (Finite b)" and "a \<noteq> b"
  shows "pow2 (- 149) \<le> \<bar>a - b\<bar>"
proof -
  from float32_grid [OF assms(1)] obtain k :: int where k: "a = of_int k * pow2 (- 149)" ..
  from float32_grid [OF assms(2)] obtain l :: int where l: "b = of_int l * pow2 (- 149)" ..
  from assms(3) k l have "k \<noteq> l" by auto
  then have "1 \<le> \<bar>k - l\<bar>" by linarith
  then have "1 \<le> \<bar>real_of_int (k - l)\<bar>"
    by (metis of_int_1_le_iff of_int_abs)
  moreover have "a - b = real_of_int (k - l) * pow2 (- 149)"
    by (simp add: k l left_diff_distrib)
  then have "\<bar>a - b\<bar> = \<bar>real_of_int (k - l)\<bar> * pow2 (- 149)"
    by (simp add: abs_mult)
  ultimately show ?thesis
    using pow2_pos [of "- 149"] by (simp add: mult_le_cancel_right1 del: pow2_pos)
qed

lemma sub32_nonzero:
  assumes "is_float32 a" and "is_float32 b" and "a \<noteq> b"
  shows "fp_sub round32 a b \<noteq> Finite 0"
proof (cases a)
  case fa: (Finite x)
  show ?thesis
  proof (cases b)
    case (Finite y)
    with fa assms have "pow2 (- 149) \<le> \<bar>x - y\<bar>"
      by (intro float32_apart) auto
    then have "fp_round 24 (- 126) 127 (x - y) \<noteq> Finite 0"
      by (intro fp_round_nonzero) simp_all
    with fa Finite show ?thesis by (simp add: round32_def)
  qed (use fa in simp_all)
next
  case PInf
  then show ?thesis by (cases b) simp_all
next
  case MInf
  then show ?thesis by (cases b) simp_all
next
  case NaN
  then show ?thesis by simp
qed

text \<open>Evaluation of the arithmetic and of the containment test at given numbers.\<close>

lemmas fp_eval = round32_def round64_def fp_round_def ilog2.simps pow2_def round_half_even_def
  Let_def fp_gt_def float32_of.rep_eq

lemmas pip_eval = pointInPolygon_def pip_loop.simps at_index_def edge_test_def vertex_def
  corner_def

section \<open>Properties of the containment test\<close>

lemma fp_div_defined: "b \<noteq> Finite 0 \<Longrightarrow> \<exists>q. fp_div rnd a b = Inr q"
  by (cases b; cases a) auto

lemma crossing_x_defined:
  assumes "fp_gt (double_of (y32 a)) h \<noteq> fp_gt (double_of (y32 b)) h"
  shows "\<exists>c. crossing_x a b h = Inr c"
proof -
  from assms have "double_of (y32 b) \<noteq> double_of (y32 a)" by auto
  moreover have "is_float32 (double_of (y32 a))" "is_float32 (double_of (y32 b))"
    using double_of [of "y32 a"] double_of [of "y32 b"] by simp_all
  ultimately have "fp_sub round32 (double_of (y32 b)) (double_of (y32 a)) \<noteq> Finite 0"
    by (intro sub32_nonzero)
  from fp_div_defined [OF this] obtain q where
    "fp_div round64
       (fp_mul round64 (fp_sub round32 (double_of (x32 b)) (double_of (x32 a)))
          (fp_sub round64 h (double_of (y32 a))))
       (fp_sub round32 (double_of (y32 b)) (double_of (y32 a))) = Inr q"
    by blast
  then show ?thesis
    by (simp add: crossing_x_def)
qed

lemma edge_test_crossing:
  "edge_test pt a b =
     Inr (fp_gt (double_of (y32 a)) (pt_y pt) \<noteq> fp_gt (double_of (y32 b)) (pt_y pt) \<and>
          (case crossing_x a b (pt_y pt) of Inl f \<Rightarrow> False | Inr c \<Rightarrow> fp_lt (pt_x pt) c))"
proof (cases "fp_gt (double_of (y32 a)) (pt_y pt) \<noteq> fp_gt (double_of (y32 b)) (pt_y pt)")
  case True
  from crossing_x_defined [OF this] obtain c where "crossing_x a b (pt_y pt) = Inr c" ..
  with True show ?thesis
    by (auto simp: edge_test_def crossing_x_def split: sum.splits)
next
  case False
  then show ?thesis by (simp add: edge_test_def)
qed

lemma is_crossing_iff:
  "is_crossing pt ps i =
     (fp_gt (double_of (y32 (ps ! i))) (pt_y pt) \<noteq>
        fp_gt (double_of (y32 (ps ! prev_index (length ps) i))) (pt_y pt) \<and>
      (case crossing_x (ps ! i) (ps ! prev_index (length ps) i) (pt_y pt) of
         Inl f \<Rightarrow> False | Inr c \<Rightarrow> fp_lt (pt_x pt) c))"
  by (auto simp: is_crossing_def Let_def)

text \<open>
  The loop invariant: entered at index \<open>i\<close> with \<open>j\<close> the previous index, the loop adds to
  \<open>cross\<close> the number of crossing edges from \<open>i\<close> on, and raises no fault.
\<close>

lemma pip_loop_count:
  "i \<le> length ps \<Longrightarrow> j = (if i = 0 then int (length ps) - 1 else int i - 1) \<Longrightarrow>
   pip_loop pt ps (int i) j c =
     Inr (c + int (length (filter (is_crossing pt ps) [i..<length ps])))"
proof (induction "length ps - i" arbitrary: i j c)
  case 0
  then show ?case by (simp add: pip_loop.simps [of pt ps "int i"])
next
  case (Suc d)
  then have lt: "i < length ps" by simp
  have jrange: "0 \<le> j \<and> j < int (length ps) \<and> nat j = prev_index (length ps) i"
    using Suc.prems lt by (auto simp: prev_index_def)
  have step: "pip_loop pt ps (int (Suc i)) (int i) c' =
        Inr (c' + int (length (filter (is_crossing pt ps) [Suc i..<length ps])))" for c'
    using Suc.hyps(1) [of "Suc i" "int i" c'] Suc.hyps(2) lt by simp
  have up: "[i..<length ps] = i # [Suc i..<length ps]"
    using lt by (simp add: upt_conv_Cons)
  show ?case
    using lt jrange step
    by (subst pip_loop.simps)
       (simp add: at_index_def edge_test_crossing is_crossing_iff up add.commute)
qed

lemma pip_result:
  "pip_loop pt (points poly) 0 (int (length (points poly)) - 1) 0 =
     Inr (int (crossing_count pt (points poly)))"
  using pip_loop_count [of 0 "points poly" "int (length (points poly)) - 1" pt 0]
  by (simp add: crossing_count_def)

lemma odd_int_mod: "(int n mod 2 \<noteq> 0) = odd n" "(int n mod 2 = 1) = odd n"
  by presburger+

text \<open>
  Claim C7, as amended. For every point and every polygon the containment test returns
  true exactly when the number of crossing edges is odd, an edge joining each vertex to
  the previous one (the last for the first), and crossing when exactly one endpoint lies
  above the point's height and the point's abscissa is less than the abscissa of the edge
  at this height as the floating-point operations of line 204 compute it.
\<close>

theorem pointInPolygon_crossing_parity:
  "pointInPolygon pt poly = Inr (odd (crossing_count pt (points poly)))"
  by (simp add: pointInPolygon_def pip_result odd_int_mod)

theorem pointInPolygon_crossing_parity_witness:
  "crossing_count (vertex 1 1) [corner 0 0, corner 4 0, corner 4 4, corner 0 4] = 1 \<and>
   pointInPolygon (vertex 1 1) \<lparr>points = [corner 0 0, corner 4 0, corner 4 4, corner 0 4]\<rparr> =
     Inr True"
proof -
  have "[0..<4] = [0, 1, 2, 3]"
    by (simp add: upt_conv_Cons)
  then have "crossing_count (vertex 1 1) [corner 0 0, corner 4 0, corner 4 4, corner 0 4] = 1"
    by (simp add: crossing_count_def is_crossing_def crossing_x_def prev_index_def vertex_def
        corner_def fp_eval)
  with pointInPolygon_crossing_parity
         [of "vertex 1 1" "\<lparr>points = [corner 0 0, corner 4 0, corner 4 4, corner 0 4]\<rparr>"]
  show ?thesis by simp
qed

text \<open>
  Claim C7 as stated places the crossing where the interpolation in the real numbers
  does. For the triangle \<open>(-1, 0)\<close>, \<open>(16777216, 2)\<close>, \<open>(16777216, 0)\<close> and the point
  \<open>(8388607.75, 1)\<close>, all of them numbers of their formats, one edge crosses in that
  sense, the one from \<open>(16777216, 0)\<close> to \<open>(16777216, 2)\<close>: the point is inside. The code
  subtracts \<open>-1 - 16777216\<close> in \<^verbatim>\<open>float\<close>, gets \<open>-16777216\<close>, places the crossing of the edge
  from \<open>(-1, 0)\<close> to \<open>(16777216, 2)\<close> at \<open>8388608\<close> instead of \<open>8388607.5\<close>, counts two
  crossings and returns false.
\<close>

theorem rounded_crossing_differs:
  "double_of (float32_of (- 1)) = Finite (- 1) \<and>
   double_of (float32_of 16777216) = Finite 16777216 \<and>
   double_of (float32_of 2) = Finite 2 \<and>
   round64 (33554431 / 4) = Finite (33554431 / 4) \<and>
   exact_crossing_x (corner 16777216 2) (corner (- 1) 0) 1 = 16777215 / 2 \<and>
   exact_crossing_count (vertex (33554431 / 4) 1)
     [corner (- 1) 0, corner 16777216 2, corner 16777216 0] = 1 \<and>
   pointInPolygon (vertex (33554431 / 4) 1)
     \<lparr>points = [corner (- 1) 0, corner 16777216 2, corner 16777216 0]\<rparr> = Inr False"
proof -
  have "[0..<3] = [0, 1, 2]" by (simp add: upt_conv_Cons)
  then show ?thesis
    by (simp add: pip_eval fp_eval exact_crossing_count_def is_exact_crossing_def
        exact_crossing_x_def prev_index_def)
qed





text \<open>
  Claim C10. The containment test is total: for every point and every polygon it returns
  a boolean. The division is reached only under the guard, which makes the two ordinates
  differ; they are \<^verbatim>\<open>float\<close> numbers, so their difference is not zero and no division by
  zero occurs; nor is the vertex list read out of range.
\<close>

theorem pointInPolygon_total:
  "\<exists>inside. pointInPolygon pt poly = Inr inside"
  by (simp add: pointInPolygon_def pip_result)

theorem pointInPolygon_total_witness:
  "\<exists>inside. pointInPolygon (vertex 2 0) \<lparr>points = [corner 0 0, corner 4 0, corner 2 0]\<rparr> =
     Inr inside"
  using pointInPolygon_total [of "vertex 2 0" "\<lparr>points = [corner 0 0, corner 4 0, corner 2 0]\<rparr>"]
  by simp

section \<open>Properties of the mission controller\<close>

subsection \<open>Shared facts\<close>

lemmas steps = ok_check_def preempt_check_def call_boundary_def move_to_def read_robot_pose_def
  call_frontier_def sleep_def setAborted_def setSucceeded_def Let_def

lemma retry_word:
  fixes retry :: "32 word"
  assumes "retry \<noteq> 0"
  shows "0 < unat retry" and "unat (retry - 1) = unat retry - 1"
    and "retry - 1 = 0 \<longleftrightarrow> unat retry = 1"
proof -
  show pos: "0 < unat retry" using assms by (simp add: unat_gt_0)
  show dec: "unat (retry - 1) = unat retry - 1" using assms by (rule unat_minus_one)
  have "retry - 1 = 0 \<longleftrightarrow> unat (retry - 1) = 0" by (simp add: unat_eq_zero)
  with pos dec show "retry - 1 = 0 \<longleftrightarrow> unat retry = 1" by auto
qed

lemma retry_more:
  fixes retry :: "32 word"
  assumes "1 < unat retry"
  shows "retry - 1 \<noteq> 0" and "unat (retry - 1) = unat retry - 1"
proof -
  from assms have nz: "retry \<noteq> 0" by (auto simp: unat_eq_zero)
  from retry_word [OF nz] assms show "retry - 1 \<noteq> 0" "unat (retry - 1) = unat retry - 1"
    by auto
qed

lemma retry_less:
  fixes retry :: "32 word"
  shows "retry - 1 \<noteq> 0 \<Longrightarrow> unat (retry - 1 - 1) < unat (retry - 1)"
  using unat_minus_one [of "retry - 1"] by (simp add: unat_gt_0)

lemma explore_loop_numeral:
  "explore_loop (numeral k) e goal cp s = explore_loop (Suc (pred_numeral k)) e goal cp s"
  by (simp add: numeral_eq_Suc)

lemmas loops = boundary_loop.simps center_loop.simps frontier_loop.simps goal_loop.simps
  explore_loop_numeral

text \<open>Facts about the scenarios.\<close>

lemma room_polygon:
  "pg_polygon (explore_boundary room) =
     \<lparr>points = [corner 0 0, corner 4 0, corner 4 4, corner 0 4]\<rparr>"
  by (simp add: room_def)

lemma inside_room: "pointInPolygon (vertex 1 1) (pg_polygon (explore_boundary room)) = Inr True"
  by (simp add: room_polygon pip_eval fp_eval)

lemma outside_room: "pointInPolygon (vertex 5 1) (pg_polygon (explore_boundary room)) = Inr False"
  by (simp add: room_polygon pip_eval fp_eval)

lemma eval_pose_room:
  "transformPose e = (\<lambda>frame p. p) \<Longrightarrow>
   position (ps_pose (eval_pose e room (pose_at a b))) = vertex a b"
  by (simp add: eval_pose_def pose_at_def)

lemmas scenario = calm_def start_def inside_room outside_room eval_pose_room

subsection \<open>Exhaustion of the frontier search\<close>

text \<open>
  A frontier loop entered with \<open>retry = m + 1\<close>, with the robot inside the boundary, whose
  next \<open>m + 1\<close> calls of the Frontier Service all fail while the process keeps running,
  makes exactly those calls and returns from the callback with one report, which only
  depends on \<^verbatim>\<open>success\<close>. \<^verbatim>\<open>ros::ok()\<close> is read in line 137 before every call and in
  line 161 after every failed call but the last.
\<close>

lemma frontier_loop_runs_out:
  assumes "pointInPolygon (position (ps_pose (eval_pose e goal sp)))
             (pg_polygon (explore_boundary goal)) = Inr True"
  shows "unat retry = Suc m \<Longrightarrow>
    \<forall>i<2 * m + 1. ros_ok e (n_ok s + i) \<Longrightarrow>
    \<forall>i<Suc m. getNextFrontier_call e (n_frontier s + i) sp = None \<Longrightarrow>
    fst (frontier_loop e goal cp sp gp retry s) = Return \<and>
    n_frontier (snd (snd (frontier_loop e goal cp sp gp retry s))) = n_frontier s + Suc m \<and>
    n_nav (snd (snd (frontier_loop e goal cp sp gp retry s))) = n_nav s \<and>
    calls (snd (snd (frontier_loop e goal cp sp gp retry s))) =
      calls s @ replicate (Suc m) (FrontierCall None) \<and>
    reports (snd (snd (frontier_loop e goal cp sp gp retry s))) =
      reports s @ [if success s then Succeeded else Aborted]"
proof (induction m arbitrary: retry s)
  case 0
  then have "retry \<noteq> 0" by (auto simp: unat_eq_zero)
  from retry_word(3) [OF this] 0 assms show ?case
    unfolding frontier_loop.simps [of e goal cp sp gp retry s] by (simp add: steps)
next
  case (Suc m)
  define s2 where "s2 = snd (ok_check e (snd (call_frontier e sp (snd (ok_check e s)))))"
  from Suc.prems(1) have more: "1 < unat retry" by simp
  from Suc.prems(2) [rule_format, of 0] Suc.prems(2) [rule_format, of 1]
  have ok: "ros_ok e (n_ok s)" "ros_ok e (Suc (n_ok s))"
    by simp_all
  from Suc.prems(3) have first: "getNextFrontier_call e (n_frontier s) sp = None"
    by auto
  have s2: "n_frontier s2 = Suc (n_frontier s)" "reports s2 = reports s"
    "success s2 = success s" "n_ok s2 = n_ok s + 2" "n_nav s2 = n_nav s"
    "calls s2 = calls s @ [FrontierCall None]"
    using first by (simp_all add: s2_def steps)
  have step: "frontier_loop e goal cp sp gp retry s = frontier_loop e goal cp sp gp (retry - 1) s2"
    using assms ok first retry_more [OF more]
    by (simp add: frontier_loop.simps [of e goal cp sp gp retry s] steps s2_def)
  have "unat (retry - 1) = Suc m"
    using Suc.prems(1) retry_more [OF more] by simp
  moreover have "\<forall>i<2 * m + 1. ros_ok e (n_ok s2 + i)"
  proof (intro allI impI)
    fix i assume "i < 2 * m + 1"
    then have "i + 2 < 2 * Suc m + 1" by simp
    with Suc.prems(2) have "ros_ok e (n_ok s + (i + 2))" by blast
    then show "ros_ok e (n_ok s2 + i)" by (simp add: s2 add.commute add.left_commute)
  qed
  moreover have "\<forall>i<Suc m. getNextFrontier_call e (n_frontier s2 + i) sp = None"
    using Suc.prems(3) s2 by auto
  ultimately show ?case
    using Suc.IH [of "retry - 1" s2] s2 by (simp add: step replicate_app_Cons_same)
qed

text \<open>
  Claim C1. In the explore loop, when the Frontier Service call exhausts its retry budget
  (the robot is inside the boundary, the process keeps running and five calls in a row
  fail), the callback makes these five calls and no other, and returns having reported
  Succeeded if \<^verbatim>\<open>success\<close> is set and Aborted if it is not; there is no third outcome.
  Here \<open>s\<close> is the state in which an iteration of the explore loop (line 122) starts.
\<close>

theorem frontier_exhaustion_outcome:
  assumes "\<forall>i<10. ros_ok e (n_ok s + i)"
    and "pointInPolygon (position (ps_pose (eval_pose e goal (getRobotPose e (n_pose s)))))
           (pg_polygon (explore_boundary goal)) = Inr True"
    and "\<forall>i<5. getNextFrontier_call e (n_frontier s + i) (getRobotPose e (n_pose s)) = None"
  shows "\<exists>s'. explore_loop (Suc fuel) e goal center_pose s = Some s' \<and>
           reports s' = reports s @ [if success s then Succeeded else Aborted] \<and>
           calls s' = calls s @ replicate 5 (FrontierCall None) \<and>
           n_frontier s' = n_frontier s + 5 \<and> n_nav s' = n_nav s"
proof -
  define s2 where "s2 = s\<lparr>n_ok := Suc (n_ok s), n_pose := Suc (n_pose s)\<rparr>"
  define sp where "sp = getRobotPose e (n_pose s)"
  obtain left target s' where run:
    "frontier_loop e goal center_pose sp default_pose_stamped 5 s2 = (left, target, s')"
    by (metis prod_cases3)
  have five: "unat (5 :: 32 word) = Suc 4" by simp
  have ok: "\<forall>i<2 * 4 + 1. ros_ok e (n_ok s2 + i)"
  proof (intro allI impI)
    fix i :: nat assume "i < 2 * 4 + 1"
    then have "Suc i < 10" by simp
    with assms(1) have "ros_ok e (n_ok s + Suc i)" by blast
    then show "ros_ok e (n_ok s2 + i)" by (simp add: s2_def)
  qed
  have failing: "\<forall>i<Suc 4. getNextFrontier_call e (n_frontier s2 + i) sp = None"
    using assms(3) by (simp add: s2_def sp_def)
  from frontier_loop_runs_out [OF assms(2) [folded sp_def] five ok failing,
      of center_pose default_pose_stamped] run
  have out: "left = Return" "n_frontier s' = n_frontier s + 5" "n_nav s' = n_nav s"
    "calls s' = calls s @ replicate 5 (FrontierCall None)"
    "reports s' = reports s @ [if success s then Succeeded else Aborted]"
    by (simp_all add: s2_def)
  from assms(1) [rule_format, of 0] have "ros_ok e (n_ok s)" by simp
  then have "explore_loop (Suc fuel) e goal center_pose s = Some s'"
    using run out(1) by (simp add: steps s2_def sp_def)
  with out show ?thesis by simp
qed

theorem frontier_exhaustion_outcome_witness:
  "(\<forall>k. ros_ok calm k) \<and>
   pointInPolygon (position (ps_pose (eval_pose calm room (getRobotPose calm 0))))
     (pg_polygon (explore_boundary room)) = Inr True \<and>
   (\<forall>k. getNextFrontier_call calm k (getRobotPose calm 0) = None) \<and>
   (\<exists>s'. explore_loop (Suc 0) calm room (center_pose_of room) (start\<lparr>success := True\<rparr>) =
            Some s' \<and>
          reports s' = [Succeeded] \<and> calls s' = replicate 5 (FrontierCall None)) \<and>
   (\<exists>s'. explore_loop (Suc 0) calm room (center_pose_of room) start = Some s' \<and>
          reports s' = [Aborted] \<and> calls s' = replicate 5 (FrontierCall None))"
proof -
  have ok: "\<forall>k. ros_ok calm k" by (simp add: calm_def)
  have inside: "pointInPolygon (position (ps_pose (eval_pose calm room (getRobotPose calm 0))))
     (pg_polygon (explore_boundary room)) = Inr True"
    by (simp add: scenario)
  have failing: "\<forall>k. getNextFrontier_call calm k (getRobotPose calm 0) = None"
    by (simp add: calm_def)
  have flagged: "n_pose (start\<lparr>success := True\<rparr>) = 0" "success (start\<lparr>success := True\<rparr>)"
    "reports (start\<lparr>success := True\<rparr>) = []" "calls (start\<lparr>success := True\<rparr>) = []"
    and fresh: "n_pose start = 0" "\<not> success start" "reports start = []" "calls start = []"
    by (simp_all add: start_def)
  have "\<exists>s'. explore_loop (Suc 0) calm room (center_pose_of room) (start\<lparr>success := True\<rparr>) =
            Some s' \<and>
          reports s' = reports (start\<lparr>success := True\<rparr>) @
            [if success (start\<lparr>success := True\<rparr>) then Succeeded else Aborted] \<and>
          calls s' = calls (start\<lparr>success := True\<rparr>) @ replicate 5 (FrontierCall None) \<and>
          n_frontier s' = n_frontier (start\<lparr>success := True\<rparr>) + 5 \<and>
          n_nav s' = n_nav (start\<lparr>success := True\<rparr>)"
  proof (rule frontier_exhaustion_outcome)
    show "\<forall>i<10. ros_ok calm (n_ok (start\<lparr>success := True\<rparr>) + i)"
      using ok by simp
    show "pointInPolygon
        (position (ps_pose (eval_pose calm room
           (getRobotPose calm (n_pose (start\<lparr>success := True\<rparr>))))))
        (pg_polygon (explore_boundary room)) = Inr True"
      using inside by (simp only: flagged)
    show "\<forall>i<5. getNextFrontier_call calm (n_frontier (start\<lparr>success := True\<rparr>) + i)
        (getRobotPose calm (n_pose (start\<lparr>success := True\<rparr>))) = None"
      using failing by (simp only: flagged) simp
  qed
  then obtain s1 where s1:
    "explore_loop (Suc 0) calm room (center_pose_of room) (start\<lparr>success := True\<rparr>) = Some s1"
    "reports s1 = reports (start\<lparr>success := True\<rparr>) @
       [if success (start\<lparr>success := True\<rparr>) then Succeeded else Aborted]"
    "calls s1 = calls (start\<lparr>success := True\<rparr>) @ replicate 5 (FrontierCall None)"
    by blast
  from s1(2,3) have "reports s1 = [Succeeded]" "calls s1 = replicate 5 (FrontierCall None)"
    by (simp_all only: flagged if_True append_Nil)
  with s1(1) have set:
    "\<exists>s'. explore_loop (Suc 0) calm room (center_pose_of room) (start\<lparr>success := True\<rparr>) =
            Some s' \<and>
          reports s' = [Succeeded] \<and> calls s' = replicate 5 (FrontierCall None)"
    by blast
  have "\<exists>s'. explore_loop (Suc 0) calm room (center_pose_of room) start = Some s' \<and>
          reports s' = reports start @ [if success start then Succeeded else Aborted] \<and>
          calls s' = calls start @ replicate 5 (FrontierCall None) \<and>
          n_frontier s' = n_frontier start + 5 \<and> n_nav s' = n_nav start"
  proof (rule frontier_exhaustion_outcome)
    show "\<forall>i<10. ros_ok calm (n_ok start + i)"
      using ok by simp
    show "pointInPolygon
        (position (ps_pose (eval_pose calm room (getRobotPose calm (n_pose start)))))
        (pg_polygon (explore_boundary room)) = Inr True"
      using inside by (simp only: fresh)
    show "\<forall>i<5. getNextFrontier_call calm (n_frontier start + i)
        (getRobotPose calm (n_pose start)) = None"
      using failing by (simp only: fresh) simp
  qed
  then obtain s2 where s2:
    "explore_loop (Suc 0) calm room (center_pose_of room) start = Some s2"
    "reports s2 = reports start @ [if success start then Succeeded else Aborted]"
    "calls s2 = calls start @ replicate 5 (FrontierCall None)"
    by blast
  from s2(2,3) fresh(2) have "reports s2 = [Aborted]" "calls s2 = replicate 5 (FrontierCall None)"
    by (simp_all only: fresh if_False append_Nil)
  with s2(1) have unset:
    "\<exists>s'. explore_loop (Suc 0) calm room (center_pose_of room) start = Some s' \<and>
          reports s' = [Aborted] \<and> calls s' = replicate 5 (FrontierCall None)"
    by blast
  from ok inside failing set unset show ?thesis by blast
qed

subsection \<open>What the flag \<^verbatim>\<open>success\<close> records\<close>

text \<open>
  The boundary and center loops leave the flag alone and log no navigation of the
  explore loop; the goal loop sets the flag exactly when it leaves by \<^verbatim>\<open>break\<close>, after a
  navigation that succeeded; the frontier loop reports Succeeded only with the flag set.
\<close>

lemma boundary_loop_flag:
  "boundary_loop e goal retry s = (left, s') \<Longrightarrow>
     success s' = success s \<and>
     list_ex goal_reached (calls s') = list_ex goal_reached (calls s) \<and>
     (Succeeded \<in> set (reports s')) = (Succeeded \<in> set (reports s))"
proof (induction "unat (retry - 1)" arbitrary: retry s rule: less_induct)
  case less
  note run = less.prems [unfolded boundary_loop.simps [of e goal retry s]]
  show ?case
  proof (cases "ros_ok e (n_ok s) \<and> \<not> isPreemptRequested e (n_preempt s) \<and>
      \<not> updateBoundaryPolygon_call e (n_boundary s) (explore_boundary goal) \<and>
      retry - 1 \<noteq> 0 \<and> ros_ok e (Suc (n_ok s))")
    case False
    with run show ?thesis by (auto simp: steps split: if_splits)
  next
    case True
    define s2 where "s2 = sleep (snd (ok_check e (snd (call_boundary e goal
      (snd (preempt_check e (snd (ok_check e s))))))))"
    from run True have rec: "boundary_loop e goal (retry - 1) s2 = (left, s')"
      by (simp add: steps s2_def)
    have s2: "success s2 = success s" "calls s2 = calls s @ [BoundaryCall False]"
      "reports s2 = reports s"
      using True by (simp_all add: s2_def steps)
    from less.hyps [OF retry_less rec] True s2 show ?thesis by simp
  qed
qed

lemma center_loop_flag:
  "center_loop e cp retry s = (left, s') \<Longrightarrow>
     success s' = success s \<and>
     list_ex goal_reached (calls s') = list_ex goal_reached (calls s) \<and>
     (Succeeded \<in> set (reports s')) = (Succeeded \<in> set (reports s))"
proof (induction "unat (retry - 1)" arbitrary: retry s rule: less_induct)
  case less
  note run = less.prems [unfolded center_loop.simps [of e cp retry s]]
  show ?case
  proof (cases "ros_ok e (n_ok s) \<and> \<not> sendGoalAndWait e (n_nav s) cp \<and>
      retry - 1 \<noteq> 0 \<and> ros_ok e (Suc (n_ok s))")
    case False
    with run show ?thesis by (auto simp: steps split: if_splits)
  next
    case True
    define s2 where "s2 = sleep (snd (ok_check e (snd (move_to e CenterNav cp
      (snd (ok_check e s))))))"
    from run True have rec: "center_loop e cp (retry - 1) s2 = (left, s')"
      by (simp add: steps s2_def)
    have s2: "success s2 = success s" "calls s2 = calls s @ [CenterNav cp False]"
      "reports s2 = reports s"
      using True by (simp_all add: s2_def steps)
    from less.hyps [OF retry_less rec] True s2 show ?thesis by simp
  qed
qed

lemma goal_loop_flag:
  "goal_loop e gp retry s = (left, s') \<Longrightarrow>
     success s' = (success s \<or> left = Break) \<and>
     list_ex goal_reached (calls s') = (list_ex goal_reached (calls s) \<or> left = Break) \<and>
     (Succeeded \<in> set (reports s')) = (Succeeded \<in> set (reports s))"
proof (induction "unat (retry - 1)" arbitrary: retry s rule: less_induct)
  case less
  note run = less.prems [unfolded goal_loop.simps [of e gp retry s]]
  show ?case
  proof (cases "ros_ok e (n_ok s) \<and> \<not> sendGoalAndWait e (n_nav s) gp \<and>
      retry - 1 \<noteq> 0 \<and> ros_ok e (Suc (n_ok s))")
    case False
    with run show ?thesis by (auto simp: steps split: if_splits)
  next
    case True
    define s2 where "s2 = sleep (snd (ok_check e (snd (move_to e GoalNav gp
      (snd (ok_check e s))))))"
    from run True have rec: "goal_loop e gp (retry - 1) s2 = (left, s')"
      by (simp add: steps s2_def)
    have s2: "success s2 = success s" "calls s2 = calls s @ [GoalNav gp False]"
      "reports s2 = reports s"
      using True by (simp_all add: s2_def steps)
    from less.hyps [OF retry_less rec] True s2 show ?thesis by simp
  qed
qed

lemma frontier_loop_flag:
  "frontier_loop e goal cp sp gp retry s = (left, target, s') \<Longrightarrow>
     success s' = success s \<and> n_sleep s' = n_sleep s \<and>
     list_ex goal_reached (calls s') = list_ex goal_reached (calls s) \<and>
     (Succeeded \<in> set (reports s')) = (Succeeded \<in> set (reports s) \<or>
        success s \<and> reports s' = reports s @ [Succeeded])"
proof (induction "unat (retry - 1)" arbitrary: retry s rule: less_induct)
  case less
  note run = less.prems [unfolded frontier_loop.simps [of e goal cp sp gp retry s]]
  show ?case
  proof (cases "ros_ok e (n_ok s) \<and>
      pointInPolygon (position (ps_pose (eval_pose e goal sp)))
        (pg_polygon (explore_boundary goal)) = Inr True \<and>
      getNextFrontier_call e (n_frontier s) sp = None \<and>
      retry - 1 \<noteq> 0 \<and> ros_ok e (Suc (n_ok s))")
    case False
    with run show ?thesis
      by (auto simp: steps split: if_splits sum.splits option.splits)
  next
    case True
    define s2 where "s2 = snd (ok_check e (snd (call_frontier e sp (snd (ok_check e s)))))"
    from run True have rec: "frontier_loop e goal cp sp gp (retry - 1) s2 = (left, target, s')"
      by (simp add: steps s2_def)
    have s2: "success s2 = success s" "calls s2 = calls s @ [FrontierCall None]"
      "reports s2 = reports s" "n_sleep s2 = n_sleep s"
      using True by (simp_all add: s2_def steps)
    from less.hyps [OF retry_less rec] True s2 show ?thesis by simp
  qed
qed

lemma explore_loop_flag:
  "explore_loop fuel e goal cp s = Some s' \<Longrightarrow>
   success s = list_ex goal_reached (calls s) \<Longrightarrow>
   (Succeeded \<in> set (reports s) \<longrightarrow> success s) \<Longrightarrow>
     success s' = list_ex goal_reached (calls s') \<and>
     (Succeeded \<in> set (reports s') \<longrightarrow> success s')"
proof (induction fuel arbitrary: s)
  case 0
  then show ?case by simp
next
  case (Suc fuel)
  define s1 where "s1 = snd (ok_check e s)"
  define s2 where "s2 = snd (read_robot_pose e s1)"
  obtain lf gp s3 where fl:
    "frontier_loop e goal cp (getRobotPose e (n_pose s1)) default_pose_stamped 5 s2 = (lf, gp, s3)"
    by (metis prod_cases3)
  obtain lg s4 where gl: "goal_loop e gp 5 s3 = (lg, s4)"
    by fastforce
  have ok: "ok_check e s = (ros_ok e (n_ok s), s1)"
    by (simp add: s1_def ok_check_def)
  have rp: "read_robot_pose e s1 = (getRobotPose e (n_pose s1), s2)"
    by (simp add: s2_def read_robot_pose_def)
  have s2: "success s2 = success s" "calls s2 = calls s" "reports s2 = reports s"
    "success s1 = success s" "calls s1 = calls s" "reports s1 = reports s"
    by (simp_all add: s1_def s2_def steps)
  note f = frontier_loop_flag [OF fl]
  note g = goal_loop_flag [OF gl]
  from Suc.prems(1)
  have "s' = s1 \<or> s' = s3 \<or> s' = s4 \<or> explore_loop fuel e goal cp s4 = Some s'"
    by (simp add: ok rp fl gl split: if_splits)
  then consider "s' = s1" | "s' = s3" | "s' = s4" | "explore_loop fuel e goal cp s4 = Some s'"
    by blast
  then show ?case
  proof cases
    case 1
    with Suc.prems s2 show ?thesis by simp
  next
    case 2
    with Suc.prems s2 f show ?thesis by auto
  next
    case 3
    with Suc.prems s2 f g show ?thesis by auto
  next
    case 4
    have "success s4 = list_ex goal_reached (calls s4)"
      "Succeeded \<in> set (reports s4) \<longrightarrow> success s4"
      using Suc.prems s2 f g by auto
    from Suc.IH [OF 4 this] show ?thesis .
  qed
qed

text \<open>
  Claim C2, as amended. When the callback returns, \<^verbatim>\<open>success\<close> is set exactly when some
  navigation request issued by the explore loop has succeeded, whether its target was a
  frontier or the center pose to which the robot returns after leaving the boundary;
  hence Succeeded is reported only if such a navigation succeeded before. The first move
  to the center (lines 92--111) does not count.
\<close>

theorem success_flag_meaning:
  assumes "executeCB fuel e goal = Some s"
  shows "success s = list_ex goal_reached (calls s) \<and>
         (Succeeded \<in> set (reports s) \<longrightarrow> list_ex goal_reached (calls s))"
proof -
  obtain lb s1 where bl: "boundary_loop e goal 5 start = (lb, s1)"
    by fastforce
  obtain lc s2 where cl: "center_loop e (center_pose_of goal) 5 s1 = (lc, s2)"
    by fastforce
  note b = boundary_loop_flag [OF bl]
  note c = center_loop_flag [OF cl]
  have quiet: "\<not> success start" "calls start = []" "reports start = []"
    by (simp_all add: start_def)
  from assms
  have "s = setAborted start \<or> s = s1 \<or> s = setAborted s1 \<or> s = s2 \<or> s = setAborted s2 \<or>
    explore_loop fuel e goal (center_pose_of goal) (s2\<lparr>success := False\<rparr>) = Some s"
    by (simp add: executeCB_def bl cl split: if_splits)
  then consider "s = setAborted start" | "s = s1" | "s = setAborted s1" | "s = s2"
    | "s = setAborted s2"
    | "explore_loop fuel e goal (center_pose_of goal) (s2\<lparr>success := False\<rparr>) = Some s"
    by blast
  then have "success s = list_ex goal_reached (calls s) \<and>
         (Succeeded \<in> set (reports s) \<longrightarrow> success s)"
  proof cases
    case 6
    have "success (s2\<lparr>success := False\<rparr>) =
            list_ex goal_reached (calls (s2\<lparr>success := False\<rparr>))"
      "Succeeded \<in> set (reports (s2\<lparr>success := False\<rparr>)) \<longrightarrow>
         success (s2\<lparr>success := False\<rparr>)"
      using quiet b c by simp_all
    from explore_loop_flag [OF 6 this] show ?thesis .
  qed (use quiet b c in \<open>simp_all add: setAborted_def\<close>)
  then show ?thesis by blast
qed

lemma strayed_run:
  "executeCB 2 strayed room =
     Some \<lparr>n_ok = 15, n_preempt = 1, n_boundary = 1, n_nav = 2, n_pose = 2, n_frontier = 5,
       n_sleep = 0, success = True,
       calls = [BoundaryCall True, CenterNav (center_pose_of room) True,
                GoalNav (center_pose_of room) True,
                FrontierCall None, FrontierCall None, FrontierCall None, FrontierCall None,
                FrontierCall None],
       reports = [Succeeded], fault_raised = None\<rparr>"
  by (simp add: executeCB_def strayed_def steps loops scenario)

theorem success_flag_meaning_witness:
  "executeCB 2 strayed room \<noteq> None \<and>
   success (the (executeCB 2 strayed room)) \<and>
   list_ex goal_reached (calls (the (executeCB 2 strayed room))) \<and>
   Succeeded \<in> set (reports (the (executeCB 2 strayed room)))"
proof -
  obtain s where run: "executeCB 2 strayed room = Some s"
    by (simp add: strayed_run)
  have "Succeeded \<in> set (reports s)"
    using run by (auto simp: strayed_run)
  with success_flag_meaning [OF run] run show ?thesis by simp
qed

text \<open>
  Claim C2 as stated requires a frontier pose to have been reached before Succeeded is
  reported. In the scenario \<open>strayed\<close> every frontier search fails, so there is no frontier
  pose at all; the one successful navigation of the explore loop is the return to the
  center, and the mission reports Succeeded.
\<close>

theorem succeeded_without_frontier:
  "map_option reports (executeCB 2 strayed room) = Some [Succeeded] \<and>
   map_option calls (executeCB 2 strayed room) =
     Some [BoundaryCall True, CenterNav (center_pose_of room) True,
           GoalNav (center_pose_of room) True,
           FrontierCall None, FrontierCall None, FrontierCall None, FrontierCall None,
           FrontierCall None]"
  by (simp add: strayed_run)

subsection \<open>Returning without a report\<close>

text \<open>
  Claim C3 says that every mission invocation ends by reporting exactly one outcome,
  Succeeded or Aborted, on every control path, the paths on which the shutdown signal
  makes a loop exit included. The callback does not do so: in the scenario
  \<open>shut_down_at_center\<close> the boundary is set and the center reached, \<^verbatim>\<open>ros::ok()\<close> is false
  when the explore loop is about to start (line 122), the loop is skipped and line 195 is
  reached with nothing reported.
\<close>

theorem shutdown_returns_without_report:
  "map_option reports (executeCB 1 shut_down_at_center room) = Some [] \<and>
   map_option calls (executeCB 1 shut_down_at_center room) =
     Some [BoundaryCall True, CenterNav (center_pose_of room) True]"
  by (simp add: executeCB_def shut_down_at_center_def steps loops scenario)

subsection \<open>Where cancellation is looked for\<close>

text \<open>
  Claim C4 says that the preemption signal is checked at the top of each explore-loop
  iteration and before each retry-guarded call, and that a check which finds it set makes
  the mission report Aborted and issue no further Navigation or Frontier Service call.
  The callback does not behave so. With the goal preempted from the start
  (\<open>preempted_strayed\<close>), line 60 finds the flag set and only leaves the boundary loop: the
  mission goes on to navigate to the center, to navigate again from outside the boundary,
  to search for frontiers five times, and reports Succeeded; the flag is not read again
  in lines 92, 122, 137 and 172. With the process shut down at the top of the second
  explore iteration (\<open>shut_down_exploring\<close>), the callback returns with nothing reported.
\<close>

theorem cancelled_mission_goes_on:
  "map_option reports (executeCB 2 preempted_strayed room) = Some [Succeeded] \<and>
   map_option calls (executeCB 2 preempted_strayed room) =
     Some [CenterNav (center_pose_of room) True, GoalNav (center_pose_of room) True,
           FrontierCall None, FrontierCall None, FrontierCall None, FrontierCall None,
           FrontierCall None] \<and>
   map_option n_preempt (executeCB 2 preempted_strayed room) = Some 1 \<and>
   map_option reports (executeCB 2 shut_down_exploring room) = Some [] \<and>
   map_option calls (executeCB 2 shut_down_exploring room) =
     Some [BoundaryCall True, CenterNav (center_pose_of room) True,
           FrontierCall (Some (pose_at 3 3)), GoalNav (pose_at 3 3) True]"
  by (simp add: executeCB_def preempted_strayed_def strayed_def shut_down_exploring_def
      steps loops scenario)

subsection \<open>Cancellation during the delay between attempts\<close>

text \<open>
  Claim C5 says that a cancellation raised during the delay between two attempts stops
  the retry loop at once, with no further attempt, and that the mission then reports
  Aborted. The callback does not behave so. In \<open>shut_down_in_goal_delay\<close> the process is
  shut down while the goal loop sleeps after a failed move: the loop is left by its
  condition (line 172) with no further attempt, the explore loop is left by its
  condition (line 122), and the callback returns with nothing reported. In
  \<open>preempted_in_delay\<close> the caller preempts while the center loop sleeps: that loop does
  not read the flag (line 92), makes its second attempt all the same, and the mission
  goes on to report Succeeded.
\<close>

theorem cancellation_in_delay_not_aborted:
  "map_option reports (executeCB 2 shut_down_in_goal_delay room) = Some [] \<and>
   map_option calls (executeCB 2 shut_down_in_goal_delay room) =
     Some [BoundaryCall True, CenterNav (center_pose_of room) True,
           FrontierCall (Some (pose_at 3 3)), GoalNav (pose_at 3 3) False] \<and>
   map_option n_sleep (executeCB 2 shut_down_in_goal_delay room) = Some 1 \<and>
   map_option n_ok (executeCB 2 shut_down_in_goal_delay room) = Some 8 \<and>
   map_option reports (executeCB 2 preempted_in_delay room) = Some [Succeeded] \<and>
   map_option calls (executeCB 2 preempted_in_delay room) =
     Some [BoundaryCall True, CenterNav (center_pose_of room) False,
           CenterNav (center_pose_of room) True, GoalNav (center_pose_of room) True,
           FrontierCall None, FrontierCall None, FrontierCall None, FrontierCall None,
           FrontierCall None] \<and>
   map_option n_sleep (executeCB 2 preempted_in_delay room) = Some 1"
  by (simp add: executeCB_def shut_down_in_goal_delay_def preempted_in_delay_def strayed_def
      steps loops scenario)

subsection \<open>The retry bound\<close>

text \<open>
  With no shutdown and no preemption, a retry loop entered with \<open>retry\<close> attempts left
  whose operation fails \<open>m\<close> times and then succeeds, for \<open>m\<close> less than \<open>retry\<close>, makes
  \<open>m + 1\<close> attempts and leaves by \<^verbatim>\<open>break\<close>; one whose operation fails \<open>retry\<close> times makes
  these attempts, reports and returns.
\<close>

lemma boundary_loop_succeeds:
  assumes "\<forall>k. ros_ok e k" and "\<forall>k. \<not> isPreemptRequested e k"
  shows "m < unat retry \<Longrightarrow>
    \<forall>i<m. \<not> updateBoundaryPolygon_call e (n_boundary s + i) (explore_boundary goal) \<Longrightarrow>
    updateBoundaryPolygon_call e (n_boundary s + m) (explore_boundary goal) \<Longrightarrow>
    fst (boundary_loop e goal retry s) = Break \<and>
    n_boundary (snd (boundary_loop e goal retry s)) = n_boundary s + Suc m \<and>
    reports (snd (boundary_loop e goal retry s)) = reports s"
proof (induction m arbitrary: retry s)
  case 0
  with assms show ?case
    by (simp add: boundary_loop.simps [of e goal retry s] steps)
next
  case (Suc m)
  define s2 where "s2 = sleep (snd (ok_check e (snd (call_boundary e goal
      (snd (preempt_check e (snd (ok_check e s))))))))"
  have s2: "n_boundary s2 = Suc (n_boundary s)" "reports s2 = reports s"
    by (simp_all add: s2_def steps)
  from Suc.prems(1) have more: "1 < unat retry" by simp
  from Suc.prems(2) have first: "\<not> updateBoundaryPolygon_call e (n_boundary s) (explore_boundary goal)"
    by auto
  have step: "boundary_loop e goal retry s = boundary_loop e goal (retry - 1) s2"
    using assms first retry_more [OF more]
    by (simp add: boundary_loop.simps [of e goal retry s] steps s2_def)
  have "m < unat (retry - 1)"
    using Suc.prems(1) retry_more [OF more] by simp
  moreover have "\<forall>i<m. \<not> updateBoundaryPolygon_call e (n_boundary s2 + i) (explore_boundary goal)"
    using Suc.prems(2) s2 by auto
  moreover have "updateBoundaryPolygon_call e (n_boundary s2 + m) (explore_boundary goal)"
    using Suc.prems(3) s2 by simp
  ultimately show ?case
    using Suc.IH [of "retry - 1" s2] s2 by (simp add: step)
qed

lemma boundary_loop_exhausted:
  assumes "\<forall>k. ros_ok e k" and "\<forall>k. \<not> isPreemptRequested e k"
  shows "unat retry = Suc m \<Longrightarrow>
    \<forall>i<Suc m. \<not> updateBoundaryPolygon_call e (n_boundary s + i) (explore_boundary goal) \<Longrightarrow>
    fst (boundary_loop e goal retry s) = Return \<and>
    n_boundary (snd (boundary_loop e goal retry s)) = n_boundary s + Suc m \<and>
    reports (snd (boundary_loop e goal retry s)) = reports s @ [Aborted]"
proof (induction m arbitrary: retry s)
  case 0
  then have "retry \<noteq> 0" by (auto simp: unat_eq_zero)
  from retry_word(3) [OF this] 0 assms show ?case
    unfolding boundary_loop.simps [of e goal retry s] by (simp add: steps)
next
  case (Suc m)
  define s2 where "s2 = sleep (snd (ok_check e (snd (call_boundary e goal
      (snd (preempt_check e (snd (ok_check e s))))))))"
  have s2: "n_boundary s2 = Suc (n_boundary s)" "reports s2 = reports s"
    by (simp_all add: s2_def steps)
  from Suc.prems(1) have more: "1 < unat retry" by simp
  from Suc.prems(2) have first: "\<not> updateBoundaryPolygon_call e (n_boundary s) (explore_boundary goal)"
    by auto
  have step: "boundary_loop e goal retry s = boundary_loop e goal (retry - 1) s2"
    using assms first retry_more [OF more]
    by (simp add: boundary_loop.simps [of e goal retry s] steps s2_def)
  have "unat (retry - 1) = Suc m"
    using Suc.prems(1) retry_more [OF more] by simp
  moreover have "\<forall>i<Suc m. \<not> updateBoundaryPolygon_call e (n_boundary s2 + i) (explore_boundary goal)"
    using Suc.prems(2) s2 by auto
  ultimately show ?case
    using Suc.IH [of "retry - 1" s2] s2 by (simp add: step)
qed

lemma center_loop_succeeds:
  assumes "\<forall>k. ros_ok e k"
  shows "m < unat retry \<Longrightarrow>
    \<forall>i<m. \<not> sendGoalAndWait e (n_nav s + i) target \<Longrightarrow>
    sendGoalAndWait e (n_nav s + m) target \<Longrightarrow>
    fst (center_loop e target retry s) = Break \<and>
    n_nav (snd (center_loop e target retry s)) = n_nav s + Suc m \<and>
    reports (snd (center_loop e target retry s)) = reports s"
proof (induction m arbitrary: retry s)
  case 0
  with assms show ?case
    by (simp add: center_loop.simps [of e target retry s] steps)
next
  case (Suc m)
  define s2 where "s2 = sleep (snd (ok_check e (snd (move_to e CenterNav target
      (snd (ok_check e s))))))"
  have s2: "n_nav s2 = Suc (n_nav s)" "reports s2 = reports s"
    by (simp_all add: s2_def steps)
  from Suc.prems(1) have more: "1 < unat retry" by simp
  from Suc.prems(2) have first: "\<not> sendGoalAndWait e (n_nav s) target"
    by auto
  have step: "center_loop e target retry s = center_loop e target (retry - 1) s2"
    using assms first retry_more [OF more]
    by (simp add: center_loop.simps [of e target retry s] steps s2_def)
  have "m < unat (retry - 1)"
    using Suc.prems(1) retry_more [OF more] by simp
  moreover have "\<forall>i<m. \<not> sendGoalAndWait e (n_nav s2 + i) target"
    using Suc.prems(2) s2 by auto
  moreover have "sendGoalAndWait e (n_nav s2 + m) target"
    using Suc.prems(3) s2 by simp
  ultimately show ?case
    using Suc.IH [of "retry - 1" s2] s2 by (simp add: step)
qed

lemma center_loop_exhausted:
  assumes "\<forall>k. ros_ok e k"
  shows "unat retry = Suc m \<Longrightarrow>
    \<forall>i<Suc m. \<not> sendGoalAndWait e (n_nav s + i) target \<Longrightarrow>
    fst (center_loop e target retry s) = Return \<and>
    n_nav (snd (center_loop e target retry s)) = n_nav s + Suc m \<and>
    reports (snd (center_loop e target retry s)) = reports s @ [Aborted]"
proof (induction m arbitrary: retry s)
  case 0
  then have "retry \<noteq> 0" by (auto simp: unat_eq_zero)
  from retry_word(3) [OF this] 0 assms show ?case
    unfolding center_loop.simps [of e target retry s] by (simp add: steps)
next
  case (Suc m)
  define s2 where "s2 = sleep (snd (ok_check e (snd (move_to e CenterNav target
      (snd (ok_check e s))))))"
  have s2: "n_nav s2 = Suc (n_nav s)" "reports s2 = reports s"
    by (simp_all add: s2_def steps)
  from Suc.prems(1) have more: "1 < unat retry" by simp
  from Suc.prems(2) have first: "\<not> sendGoalAndWait e (n_nav s) target"
    by auto
  have step: "center_loop e target retry s = center_loop e target (retry - 1) s2"
    using assms first retry_more [OF more]
    by (simp add: center_loop.simps [of e target retry s] steps s2_def)
  have "unat (retry - 1) = Suc m"
    using Suc.prems(1) retry_more [OF more] by simp
  moreover have "\<forall>i<Suc m. \<not> sendGoalAndWait e (n_nav s2 + i) target"
    using Suc.prems(2) s2 by auto
  ultimately show ?case
    using Suc.IH [of "retry - 1" s2] s2 by (simp add: step)
qed

lemma goal_loop_succeeds:
  assumes "\<forall>k. ros_ok e k"
  shows "m < unat retry \<Longrightarrow>
    \<forall>i<m. \<not> sendGoalAndWait e (n_nav s + i) target \<Longrightarrow>
    sendGoalAndWait e (n_nav s + m) target \<Longrightarrow>
    fst (goal_loop e target retry s) = Break \<and>
    n_nav (snd (goal_loop e target retry s)) = n_nav s + Suc m \<and>
    reports (snd (goal_loop e target retry s)) = reports s \<and>
    success (snd (goal_loop e target retry s))"
proof (induction m arbitrary: retry s)
  case 0
  with assms show ?case
    by (simp add: goal_loop.simps [of e target retry s] steps)
next
  case (Suc m)
  define s2 where "s2 = sleep (snd (ok_check e (snd (move_to e GoalNav target
      (snd (ok_check e s))))))"
  have s2: "n_nav s2 = Suc (n_nav s)" "reports s2 = reports s"
    by (simp_all add: s2_def steps)
  from Suc.prems(1) have more: "1 < unat retry" by simp
  from Suc.prems(2) have first: "\<not> sendGoalAndWait e (n_nav s) target"
    by auto
  have step: "goal_loop e target retry s = goal_loop e target (retry - 1) s2"
    using assms first retry_more [OF more]
    by (simp add: goal_loop.simps [of e target retry s] steps s2_def)
  have "m < unat (retry - 1)"
    using Suc.prems(1) retry_more [OF more] by simp
  moreover have "\<forall>i<m. \<not> sendGoalAndWait e (n_nav s2 + i) target"
    using Suc.prems(2) s2 by auto
  moreover have "sendGoalAndWait e (n_nav s2 + m) target"
    using Suc.prems(3) s2 by simp
  ultimately show ?case
    using Suc.IH [of "retry - 1" s2] s2 by (simp add: step)
qed

lemma goal_loop_exhausted:
  assumes "\<forall>k. ros_ok e k"
  shows "unat retry = Suc m \<Longrightarrow>
    \<forall>i<Suc m. \<not> sendGoalAndWait e (n_nav s + i) target \<Longrightarrow>
    fst (goal_loop e target retry s) = Return \<and>
    n_nav (snd (goal_loop e target retry s)) = n_nav s + Suc m \<and>
    reports (snd (goal_loop e target retry s)) = reports s @ [Aborted]"
proof (induction m arbitrary: retry s)
  case 0
  then have "retry \<noteq> 0" by (auto simp: unat_eq_zero)
  from retry_word(3) [OF this] 0 assms show ?case
    unfolding goal_loop.simps [of e target retry s] by (simp add: steps)
next
  case (Suc m)
  define s2 where "s2 = sleep (snd (ok_check e (snd (move_to e GoalNav target
      (snd (ok_check e s))))))"
  have s2: "n_nav s2 = Suc (n_nav s)" "reports s2 = reports s"
    by (simp_all add: s2_def steps)
  from Suc.prems(1) have more: "1 < unat retry" by simp
  from Suc.prems(2) have first: "\<not> sendGoalAndWait e (n_nav s) target"
    by auto
  have step: "goal_loop e target retry s = goal_loop e target (retry - 1) s2"
    using assms first retry_more [OF more]
    by (simp add: goal_loop.simps [of e target retry s] steps s2_def)
  have "unat (retry - 1) = Suc m"
    using Suc.prems(1) retry_more [OF more] by simp
  moreover have "\<forall>i<Suc m. \<not> sendGoalAndWait e (n_nav s2 + i) target"
    using Suc.prems(2) s2 by auto
  ultimately show ?case
    using Suc.IH [of "retry - 1" s2] s2 by (simp add: step)
qed

lemma frontier_loop_succeeds:
  assumes "\<forall>k. ros_ok e k"
    and "pointInPolygon (position (ps_pose (eval_pose e goal sp)))
           (pg_polygon (explore_boundary goal)) = Inr True"
  shows "m < unat retry \<Longrightarrow>
    \<forall>i<m. getNextFrontier_call e (n_frontier s + i) sp = None \<Longrightarrow>
    getNextFrontier_call e (n_frontier s + m) sp = Some p \<Longrightarrow>
    fst (frontier_loop e goal cp sp gp retry s) = Break \<and>
    fst (snd (frontier_loop e goal cp sp gp retry s)) = p \<and>
    n_frontier (snd (snd (frontier_loop e goal cp sp gp retry s))) = n_frontier s + Suc m \<and>
    reports (snd (snd (frontier_loop e goal cp sp gp retry s))) = reports s"
proof (induction m arbitrary: retry s)
  case 0
  with assms show ?case
    by (simp add: frontier_loop.simps [of e goal cp sp gp retry s] steps)
next
  case (Suc m)
  define s2 where "s2 = snd (ok_check e (snd (call_frontier e sp (snd (ok_check e s)))))"
  have s2: "n_frontier s2 = Suc (n_frontier s)" "reports s2 = reports s"
    by (simp_all add: s2_def steps)
  from Suc.prems(1) have more: "1 < unat retry" by simp
  from Suc.prems(2) have first: "getNextFrontier_call e (n_frontier s) sp = None"
    by auto
  have step: "frontier_loop e goal cp sp gp retry s = frontier_loop e goal cp sp gp (retry - 1) s2"
    using assms first retry_more [OF more]
    by (simp add: frontier_loop.simps [of e goal cp sp gp retry s] steps s2_def)
  have "m < unat (retry - 1)"
    using Suc.prems(1) retry_more [OF more] by simp
  moreover have "\<forall>i<m. getNextFrontier_call e (n_frontier s2 + i) sp = None"
    using Suc.prems(2) s2 by auto
  moreover have "getNextFrontier_call e (n_frontier s2 + m) sp = Some p"
    using Suc.prems(3) s2 by simp
  ultimately show ?case
    using Suc.IH [of "retry - 1" s2] s2 by (simp add: step)
qed

lemma frontier_loop_exhausted:
  assumes "\<forall>k. ros_ok e k"
    and "pointInPolygon (position (ps_pose (eval_pose e goal sp)))
           (pg_polygon (explore_boundary goal)) = Inr True"
  shows "unat retry = Suc m \<Longrightarrow>
    \<forall>i<Suc m. getNextFrontier_call e (n_frontier s + i) sp = None \<Longrightarrow>
    fst (frontier_loop e goal cp sp gp retry s) = Return \<and>
    n_frontier (snd (snd (frontier_loop e goal cp sp gp retry s))) = n_frontier s + Suc m \<and>
    reports (snd (snd (frontier_loop e goal cp sp gp retry s))) =
      reports s @ [if success s then Succeeded else Aborted]"
proof (induction m arbitrary: retry s)
  case 0
  then have "retry \<noteq> 0" by (auto simp: unat_eq_zero)
  from retry_word(3) [OF this] 0 assms show ?case
    unfolding frontier_loop.simps [of e goal cp sp gp retry s] by (simp add: steps)
next
  case (Suc m)
  define s2 where "s2 = snd (ok_check e (snd (call_frontier e sp (snd (ok_check e s)))))"
  have s2: "n_frontier s2 = Suc (n_frontier s)" "reports s2 = reports s" "success s2 = success s"
    by (simp_all add: s2_def steps)
  from Suc.prems(1) have more: "1 < unat retry" by simp
  from Suc.prems(2) have first: "getNextFrontier_call e (n_frontier s) sp = None"
    by auto
  have step: "frontier_loop e goal cp sp gp retry s = frontier_loop e goal cp sp gp (retry - 1) s2"
    using assms first retry_more [OF more]
    by (simp add: frontier_loop.simps [of e goal cp sp gp retry s] steps s2_def)
  have "unat (retry - 1) = Suc m"
    using Suc.prems(1) retry_more [OF more] by simp
  moreover have "\<forall>i<Suc m. getNextFrontier_call e (n_frontier s2 + i) sp = None"
    using Suc.prems(2) s2 by auto
  ultimately show ?case
    using Suc.IH [of "retry - 1" s2] s2 by (simp add: step)
qed

text \<open>
  Claim C6, as amended. With the budget of 5 and no cancellation, in each of the four
  retry-guarded steps (for the Frontier Service step: while the robot is inside the
  boundary) an operation that fails five times in a row is attempted exactly five times
  before the callback reports and returns, and an operation that first succeeds after
  \<open>k < 5\<close> failures is attempted exactly \<open>k + 1\<close> times, the loop being left at once with
  the operation's result. The report on exhaustion is Aborted, except in the Frontier
  Service step, where it is Succeeded when \<^verbatim>\<open>success\<close> is set.
\<close>

theorem retry_bound:
  assumes "\<forall>k. ros_ok e k" and "\<forall>k. \<not> isPreemptRequested e k"
  shows
    "((\<forall>i<5. \<not> updateBoundaryPolygon_call e (n_boundary s + i) (explore_boundary goal)) \<longrightarrow>
        fst (boundary_loop e goal 5 s) = Return \<and>
        n_boundary (snd (boundary_loop e goal 5 s)) = n_boundary s + 5 \<and>
        reports (snd (boundary_loop e goal 5 s)) = reports s @ [Aborted]) \<and>
     (k < 5 \<and>
      (\<forall>i<k. \<not> updateBoundaryPolygon_call e (n_boundary s + i) (explore_boundary goal)) \<and>
      updateBoundaryPolygon_call e (n_boundary s + k) (explore_boundary goal) \<longrightarrow>
        fst (boundary_loop e goal 5 s) = Break \<and>
        n_boundary (snd (boundary_loop e goal 5 s)) = n_boundary s + Suc k \<and>
        reports (snd (boundary_loop e goal 5 s)) = reports s) \<and>
     ((\<forall>i<5. \<not> sendGoalAndWait e (n_nav s + i) target) \<longrightarrow>
        fst (center_loop e target 5 s) = Return \<and>
        n_nav (snd (center_loop e target 5 s)) = n_nav s + 5 \<and>
        reports (snd (center_loop e target 5 s)) = reports s @ [Aborted] \<and>
        fst (goal_loop e target 5 s) = Return \<and>
        n_nav (snd (goal_loop e target 5 s)) = n_nav s + 5 \<and>
        reports (snd (goal_loop e target 5 s)) = reports s @ [Aborted]) \<and>
     (k < 5 \<and> (\<forall>i<k. \<not> sendGoalAndWait e (n_nav s + i) target) \<and>
      sendGoalAndWait e (n_nav s + k) target \<longrightarrow>
        fst (center_loop e target 5 s) = Break \<and>
        n_nav (snd (center_loop e target 5 s)) = n_nav s + Suc k \<and>
        reports (snd (center_loop e target 5 s)) = reports s \<and>
        fst (goal_loop e target 5 s) = Break \<and>
        n_nav (snd (goal_loop e target 5 s)) = n_nav s + Suc k \<and>
        reports (snd (goal_loop e target 5 s)) = reports s \<and>
        success (snd (goal_loop e target 5 s))) \<and>
     (pointInPolygon (position (ps_pose (eval_pose e goal sp)))
        (pg_polygon (explore_boundary goal)) = Inr True \<longrightarrow>
        ((\<forall>i<5. getNextFrontier_call e (n_frontier s + i) sp = None) \<longrightarrow>
           fst (frontier_loop e goal cp sp gp 5 s) = Return \<and>
           n_frontier (snd (snd (frontier_loop e goal cp sp gp 5 s))) = n_frontier s + 5 \<and>
           reports (snd (snd (frontier_loop e goal cp sp gp 5 s))) =
             reports s @ [if success s then Succeeded else Aborted]) \<and>
        (k < 5 \<and> (\<forall>i<k. getNextFrontier_call e (n_frontier s + i) sp = None) \<and>
         getNextFrontier_call e (n_frontier s + k) sp = Some p \<longrightarrow>
           fst (frontier_loop e goal cp sp gp 5 s) = Break \<and>
           fst (snd (frontier_loop e goal cp sp gp 5 s)) = p \<and>
           n_frontier (snd (snd (frontier_loop e goal cp sp gp 5 s))) = n_frontier s + Suc k \<and>
           reports (snd (snd (frontier_loop e goal cp sp gp 5 s))) = reports s))"
proof -
  have five: "unat (5 :: 32 word) = Suc 4" "k < 5 \<longleftrightarrow> k < unat (5 :: 32 word)"
    "\<And>n::nat. n + 5 = n + Suc 4" "\<And>P. (\<forall>i<5::nat. P i) = (\<forall>i<Suc 4. P i)"
    by simp_all
  note ok = assms(1) and np = assms(2)
  show ?thesis
    unfolding five(2,3,4)
    using boundary_loop_exhausted [OF ok np five(1), of s goal]
      boundary_loop_succeeds [OF ok np, of k 5 s goal]
      center_loop_exhausted [OF ok five(1), of s target]
      center_loop_succeeds [OF ok, of k 5 s target]
      goal_loop_exhausted [OF ok five(1), of s target]
      goal_loop_succeeds [OF ok, of k 5 s target]
      frontier_loop_exhausted [OF ok _ five(1), of goal sp s cp gp]
      frontier_loop_succeeds [OF ok, of goal sp k 5 s p cp gp]
    by blast
qed

theorem retry_bound_witness:
  "(\<forall>k. ros_ok boundary_down k) \<and> (\<forall>k. \<not> isPreemptRequested boundary_down k) \<and>
   fst (boundary_loop boundary_down room 5 start) = Return \<and>
   n_boundary (snd (boundary_loop boundary_down room 5 start)) = 5 \<and>
   reports (snd (boundary_loop boundary_down room 5 start)) = [Aborted] \<and>
   (\<forall>k. ros_ok second_try k) \<and> (\<forall>k. \<not> isPreemptRequested second_try k) \<and>
   getNextFrontier_call second_try 0 (pose_at 1 1) = None \<and>
   getNextFrontier_call second_try 1 (pose_at 1 1) = Some (pose_at 3 3) \<and>
   fst (frontier_loop second_try room (center_pose_of room) (pose_at 1 1)
          default_pose_stamped 5 start) = Break \<and>
   fst (snd (frontier_loop second_try room (center_pose_of room) (pose_at 1 1)
          default_pose_stamped 5 start)) = pose_at 3 3 \<and>
   n_frontier (snd (snd (frontier_loop second_try room (center_pose_of room) (pose_at 1 1)
          default_pose_stamped 5 start))) = 2"
proof -
  have down: "\<forall>k. ros_ok boundary_down k" "\<forall>k. \<not> isPreemptRequested boundary_down k"
    "\<forall>i<5. \<not> updateBoundaryPolygon_call boundary_down (n_boundary start + i)
        (explore_boundary room)"
    by (simp_all add: boundary_down_def calm_def)
  have second: "\<forall>k. ros_ok second_try k" "\<forall>k. \<not> isPreemptRequested second_try k"
    "\<forall>i<1. getNextFrontier_call second_try (n_frontier start + i) (pose_at 1 1) = None"
    "getNextFrontier_call second_try (n_frontier start + 1) (pose_at 1 1) = Some (pose_at 3 3)"
    "(1::nat) < 5"
    "pointInPolygon (position (ps_pose (eval_pose second_try room (pose_at 1 1))))
       (pg_polygon (explore_boundary room)) = Inr True"
    by (simp_all add: second_try_def scenario)
  from retry_bound [OF down(1,2), where s = start and goal = room] down(3)
  have "fst (boundary_loop boundary_down room 5 start) = Return \<and>
    n_boundary (snd (boundary_loop boundary_down room 5 start)) = n_boundary start + 5 \<and>
    reports (snd (boundary_loop boundary_down room 5 start)) = reports start @ [Aborted]"
    by blast
  moreover
  from retry_bound [OF second(1,2), where k = 1 and s = start and goal = room
      and sp = "pose_at 1 1" and p = "pose_at 3 3" and cp = "center_pose_of room"
      and gp = default_pose_stamped] second(3-)
  have "fst (frontier_loop second_try room (center_pose_of room) (pose_at 1 1)
          default_pose_stamped 5 start) = Break \<and>
   fst (snd (frontier_loop second_try room (center_pose_of room) (pose_at 1 1)
          default_pose_stamped 5 start)) = pose_at 3 3 \<and>
   n_frontier (snd (snd (frontier_loop second_try room (center_pose_of room) (pose_at 1 1)
          default_pose_stamped 5 start))) = n_frontier start + Suc 1"
    by blast
  ultimately show ?thesis
    using down(1,2) second(1,2) by (simp add: start_def second_try_def calm_def)
qed

text \<open>
  Claim C6 as stated has every retry-guarded step escalate to Aborted after exactly five
  attempts of an operation that always fails. With \<^verbatim>\<open>success\<close> set, the Frontier Service
  step escalates to Succeeded; and with the robot outside the boundary it makes no
  attempt at all.
\<close>

theorem frontier_step_not_aborted:
  "fst (frontier_loop calm room (center_pose_of room) (pose_at 1 1) default_pose_stamped 5
          (start\<lparr>success := True\<rparr>)) = Return \<and>
   n_frontier (snd (snd (frontier_loop calm room (center_pose_of room) (pose_at 1 1)
          default_pose_stamped 5 (start\<lparr>success := True\<rparr>)))) = 5 \<and>
   reports (snd (snd (frontier_loop calm room (center_pose_of room) (pose_at 1 1)
          default_pose_stamped 5 (start\<lparr>success := True\<rparr>)))) = [Succeeded] \<and>
   fst (frontier_loop calm room (center_pose_of room) (pose_at 5 1) default_pose_stamped 5
          start) = Break \<and>
   n_frontier (snd (snd (frontier_loop calm room (center_pose_of room) (pose_at 5 1)
          default_pose_stamped 5 start))) = 0"
  by (simp add: frontier_loop.simps steps scenario)

subsection \<open>Leaving the boundary\<close>




end
